theory Spec2Isabelle
  imports Main
begin

section \<open>Python values\<close>

text \<open>
  The program of \<^verbatim>\<open>src/main.py\<close> keeps JSON documents in memory as Python objects.
  The exceptions it can meet are values of \<open>error\<close>; a fallible expression has a result
  of type \<open>error + 'a\<close>, with \<open>Inl\<close> for the raised exception.
\<close>

datatype error =
    ValueError | TypeError | KeyError | IndexError | AttributeError
  | JSONDecodeError | RecursionError | ConnectionError | FileNotFoundError | PermissionError

text \<open>
  Dictionary keys are strings (every key that \<^verbatim>\<open>json.loads\<close> builds) or integers (a
  segment id used as a key). A dictionary is an association list in insertion order, as
  Python keeps it. Strings are lists of code points below 256. Floating point numbers
  are not represented.
\<close>

datatype pykey = KStr string | KInt int

datatype pyval =
    PNone
  | PBool bool
  | PInt int
  | PStr string
  | PList "pyval list"
  | PDict "(pykey \<times> pyval) list"

subsection \<open>The builtins \<^verbatim>\<open>bool\<close> and \<open>int\<close>\<close>

text \<open>\<^verbatim>\<open>bool(x)\<close>: \<^verbatim>\<open>None\<close>, \<^verbatim>\<open>False\<close>, zero and the empty containers are false.\<close>

fun py_bool :: "pyval \<Rightarrow> bool" where
  "py_bool PNone = False"
| "py_bool (PBool b) = b"
| "py_bool (PInt i) = (i \<noteq> 0)"
| "py_bool (PStr s) = (s \<noteq> [])"
| "py_bool (PList xs) = (xs \<noteq> [])"
| "py_bool (PDict kvs) = (kvs \<noteq> [])"

text \<open>
  The white space that \<^verbatim>\<open>int\<close> skips around a literal: the code points 9 to 13 and 32,
  and of those from 128 on the two that are Unicode white space, 133 and 160.
\<close>

definition py_isspace :: "char \<Rightarrow> bool" where
  "py_isspace c =
     (let n = (of_char c :: nat)
      in (9 \<le> n \<and> n \<le> 13) \<or> n = 32 \<or> n = 133 \<or> n = 160)"

definition is_digit :: "char \<Rightarrow> bool" where
  "is_digit c = (48 \<le> (of_char c :: nat) \<and> (of_char c :: nat) \<le> 57)"

definition digit_val :: "char \<Rightarrow> nat" where
  "digit_val c = of_char c - 48"

definition py_strip :: "string \<Rightarrow> string" where
  "py_strip s = rev (dropWhile py_isspace (rev (dropWhile py_isspace s)))"

text \<open>
  The digits of a decimal literal after its first digit: more digits, each optionally
  preceded by one underscore.
\<close>

fun int_digits :: "string \<Rightarrow> nat \<Rightarrow> nat option" where
  "int_digits [] acc = Some acc"
| "int_digits (c # cs) acc =
     (if is_digit c then int_digits cs (acc * 10 + digit_val c)
      else if c = CHR ''_'' then
        (case cs of
           [] \<Rightarrow> None
         | d # ds \<Rightarrow> if is_digit d then int_digits ds (acc * 10 + digit_val d) else None)
      else None)"

text \<open>
  CPython (3.11 and later, with its default setting) refuses to convert between an
  integer and a decimal text of more than 4300 digits, with \<^verbatim>\<open>ValueError\<close>: in \<^verbatim>\<open>int\<close>
  of a string, and in the \<^verbatim>\<open>json\<close> functions further down.
\<close>

definition max_str_digits :: nat where
  "max_str_digits = 4300"

definition unsigned_literal :: "string \<Rightarrow> nat option" where
  "unsigned_literal s =
     (case s of
        [] \<Rightarrow> None
      | d # ds \<Rightarrow>
          if is_digit d then
            (if max_str_digits < length (filter is_digit s) then None
             else int_digits ds (digit_val d))
          else None)"

text \<open>\<^verbatim>\<open>int(s)\<close> for a string: surrounding whitespace, an optional sign, a literal.\<close>

definition py_int_str :: "string \<Rightarrow> error + int" where
  "py_int_str s =
     (case py_strip s of
        [] \<Rightarrow> Inl ValueError
      | c # cs \<Rightarrow>
          if c = CHR ''-'' then
            (case unsigned_literal cs of None \<Rightarrow> Inl ValueError | Some n \<Rightarrow> Inr (- int n))
          else if c = CHR ''+'' then
            (case unsigned_literal cs of None \<Rightarrow> Inl ValueError | Some n \<Rightarrow> Inr (int n))
          else
            (case unsigned_literal (c # cs) of None \<Rightarrow> Inl ValueError | Some n \<Rightarrow> Inr (int n)))"

fun py_int :: "pyval \<Rightarrow> error + int" where
  "py_int (PInt i) = Inr i"
| "py_int (PBool b) = Inr (if b then 1 else 0)"
| "py_int (PStr s) = py_int_str s"
| "py_int PNone = Inl TypeError"
| "py_int (PList xs) = Inl TypeError"
| "py_int (PDict kvs) = Inl TypeError"

subsection \<open>Containers\<close>

text \<open>
  A Python index counts from the end when it is negative; \<open>norm_index n i\<close> is the
  position it denotes in a sequence of length \<open>n\<close>, if there is one.
\<close>

definition norm_index :: "nat \<Rightarrow> int \<Rightarrow> nat option" where
  "norm_index n i =
     (let j = (if i < 0 then i + int n else i)
      in if 0 \<le> j \<and> j < int n then Some (nat j) else None)"

text \<open>\<^verbatim>\<open>d[k] = v\<close> on a dictionary: an existing key keeps its place, a new one goes last.\<close>

fun dict_set :: "pykey \<Rightarrow> pyval \<Rightarrow> (pykey \<times> pyval) list \<Rightarrow> (pykey \<times> pyval) list" where
  "dict_set k v [] = [(k, v)]"
| "dict_set k v (p # ps) = (if fst p = k then (k, v) # ps else p # dict_set k v ps)"

text \<open>The subscript expression \<^verbatim>\<open>obj[key]\<close>.\<close>

fun subscript :: "pyval \<Rightarrow> pykey \<Rightarrow> error + pyval" where
  "subscript (PDict kvs) k = (case map_of kvs k of None \<Rightarrow> Inl KeyError | Some v \<Rightarrow> Inr v)"
| "subscript (PList xs) (KInt i) =
     (case norm_index (length xs) i of None \<Rightarrow> Inl IndexError | Some j \<Rightarrow> Inr (xs ! j))"
| "subscript (PList xs) (KStr s) = Inl TypeError"
| "subscript (PStr t) (KInt i) =
     (case norm_index (length t) i of None \<Rightarrow> Inl IndexError | Some j \<Rightarrow> Inr (PStr [t ! j]))"
| "subscript (PStr t) (KStr s) = Inl TypeError"
| "subscript PNone k = Inl TypeError"
| "subscript (PBool b) k = Inl TypeError"
| "subscript (PInt n) k = Inl TypeError"

text \<open>
  The method call \<^verbatim>\<open>obj.__getitem__(key)\<close>: as the subscript, but an object without
  the method (\<^verbatim>\<open>None\<close>, a boolean, an integer) raises \<^verbatim>\<open>AttributeError\<close>.
\<close>

fun call_getitem :: "pyval \<Rightarrow> pykey \<Rightarrow> error + pyval" where
  "call_getitem PNone k = Inl AttributeError"
| "call_getitem (PBool b) k = Inl AttributeError"
| "call_getitem (PInt n) k = Inl AttributeError"
| "call_getitem v k = subscript v k"

text \<open>
  The method call \<^verbatim>\<open>obj.__setitem__(key, value)\<close>; the result is the object after the
  call. Only lists and dictionaries have the method.
\<close>

fun call_setitem :: "pyval \<Rightarrow> pykey \<Rightarrow> pyval \<Rightarrow> error + pyval" where
  "call_setitem (PDict kvs) k x = Inr (PDict (dict_set k x kvs))"
| "call_setitem (PList xs) (KInt i) x =
     (case norm_index (length xs) i of None \<Rightarrow> Inl IndexError | Some j \<Rightarrow> Inr (PList (xs[j := x])))"
| "call_setitem (PList xs) (KStr s) x = Inl TypeError"
| "call_setitem (PStr t) k x = Inl AttributeError"
| "call_setitem PNone k x = Inl AttributeError"
| "call_setitem (PBool b) k x = Inl AttributeError"
| "call_setitem (PInt n) k x = Inl AttributeError"

text \<open>\<^verbatim>\<open>len(obj)\<close> and \<^verbatim>\<open>len(obj.keys())\<close>.\<close>

fun py_len :: "pyval \<Rightarrow> error + nat" where
  "py_len (PList xs) = Inr (length xs)"
| "py_len (PDict kvs) = Inr (length kvs)"
| "py_len (PStr s) = Inr (length s)"
| "py_len PNone = Inl TypeError"
| "py_len (PBool b) = Inl TypeError"
| "py_len (PInt n) = Inl TypeError"

fun len_keys :: "pyval \<Rightarrow> error + nat" where
  "len_keys (PDict kvs) = Inr (length kvs)"
| "len_keys v = Inl AttributeError"

text \<open>\<^verbatim>\<open>item < obj\<close> for an integer \<open>item\<close>: defined against integers and booleans only.\<close>

fun int_lt :: "int \<Rightarrow> pyval \<Rightarrow> error + bool" where
  "int_lt i (PInt m) = Inr (i < m)"
| "int_lt i (PBool b) = Inr (i < (if b then 1 else 0))"
| "int_lt i v = Inl TypeError"

section \<open>The JSON codec\<close>

text \<open>
  \<^verbatim>\<open>json.dumps\<close> and \<^verbatim>\<open>json.loads\<close> with their default options, on the values above.
  The double quote is \<open>CHR 0x22\<close> and the backslash \<open>CHR 0x5C\<close>. \<open>encode\<close> is the text
  that the encoder writes; \<open>dumps\<close> raises instead when an integer of the value is
  beyond the digit limit.
\<close>

subsection \<open>\<^verbatim>\<open>dumps\<close>\<close>

definition digit_char :: "nat \<Rightarrow> char" where
  "digit_char n = char_of (48 + n)"

fun show_nat :: "nat \<Rightarrow> string" where
  "show_nat n = (if n < 10 then [digit_char n] else show_nat (n div 10) @ [digit_char (n mod 10)])"

declare show_nat.simps [simp del]

definition show_int :: "int \<Rightarrow> string" where
  "show_int i = (if i < 0 then CHR ''-'' # show_nat (nat (- i)) else show_nat (nat i))"

definition hex_char :: "nat \<Rightarrow> char" where
  "hex_char n = (if n < 10 then char_of (48 + n) else char_of (87 + n))"

text \<open>
  One character of a string literal: the short escapes, the character itself when it is
  printable ASCII, and \<^verbatim>\<open>\u00xx\<close> otherwise.
\<close>

definition escape_char :: "char \<Rightarrow> string" where
  "escape_char c =
     (let n = (of_char c :: nat) in
      if c = CHR 0x5C then [CHR 0x5C, CHR 0x5C]
      else if c = CHR 0x22 then [CHR 0x5C, CHR 0x22]
      else if n = 8 then [CHR 0x5C, CHR ''b'']
      else if n = 12 then [CHR 0x5C, CHR ''f'']
      else if n = 10 then [CHR 0x5C, CHR ''n'']
      else if n = 13 then [CHR 0x5C, CHR ''r'']
      else if n = 9 then [CHR 0x5C, CHR ''t'']
      else if 32 \<le> n \<and> n \<le> 126 then [c]
      else [CHR 0x5C, CHR ''u'', CHR ''0'', CHR ''0'', hex_char (n div 16), hex_char (n mod 16)])"

definition encode_str :: "string \<Rightarrow> string" where
  "encode_str s = CHR 0x22 # concat (map escape_char s) @ [CHR 0x22]"

text \<open>A key that is an integer is written as the string of its decimal digits.\<close>

fun encode_key :: "pykey \<Rightarrow> string" where
  "encode_key (KStr s) = encode_str s"
| "encode_key (KInt i) = encode_str (show_int i)"

fun join_comma :: "string list \<Rightarrow> string" where
  "join_comma [] = []"
| "join_comma [x] = x"
| "join_comma (x # y # r) = x @ '', '' @ join_comma (y # r)"

fun encode :: "pyval \<Rightarrow> string" where
  "encode PNone = ''null''"
| "encode (PBool b) = (if b then ''true'' else ''false'')"
| "encode (PInt i) = show_int i"
| "encode (PStr s) = encode_str s"
| "encode (PList xs) = ''['' @ join_comma (map encode xs) @ '']''"
| "encode (PDict kvs) =
     ''{'' @ join_comma (map (\<lambda>p. encode_key (fst p) @ '': '' @ encode (snd p)) kvs) @ ''}''"

definition int_ok :: "int \<Rightarrow> bool" where
  "int_ok i = (length (show_nat (nat \<bar>i\<bar>)) \<le> max_str_digits)"

fun key_ok :: "pykey \<Rightarrow> bool" where
  "key_ok (KStr s) = True"
| "key_ok (KInt i) = int_ok i"

fun encodable :: "pyval \<Rightarrow> bool" where
  "encodable (PInt i) = int_ok i"
| "encodable (PList xs) = (\<forall>x\<in>set xs. encodable x)"
| "encodable (PDict kvs) = (\<forall>p\<in>set kvs. key_ok (fst p) \<and> encodable (snd p))"
| "encodable v = True"

definition dumps :: "pyval \<Rightarrow> error + string" where
  "dumps v = (if encodable v then Inr (encode v) else Inl ValueError)"

subsection \<open>\<^verbatim>\<open>loads\<close>\<close>

definition json_ws :: "char \<Rightarrow> bool" where
  "json_ws c = (c = CHR '' '' \<or> c = CHR 0x09 \<or> c = CHR 0x0A \<or> c = CHR 0x0D)"

definition skip_ws :: "string \<Rightarrow> string" where
  "skip_ws s = dropWhile json_ws s"

definition hex_val :: "char \<Rightarrow> nat option" where
  "hex_val c =
     (let n = (of_char c :: nat) in
      if 48 \<le> n \<and> n \<le> 57 then Some (n - 48)
      else if 97 \<le> n \<and> n \<le> 102 then Some (n - 87)
      else if 65 \<le> n \<and> n \<le> 70 then Some (n - 55)
      else None)"

definition hex4 :: "char \<Rightarrow> char \<Rightarrow> char \<Rightarrow> char \<Rightarrow> nat option" where
  "hex4 a b c d =
     (case (hex_val a, hex_val b, hex_val c, hex_val d) of
        (Some p, Some q, Some r, Some t) \<Rightarrow> Some (((p * 16 + q) * 16 + r) * 16 + t)
      | _ \<Rightarrow> None)"

definition unescape :: "char \<Rightarrow> char option" where
  "unescape e =
     (if e = CHR 0x22 then Some (CHR 0x22)
      else if e = CHR 0x5C then Some (CHR 0x5C)
      else if e = CHR ''/'' then Some (CHR ''/'')
      else if e = CHR ''b'' then Some (CHR 0x08)
      else if e = CHR ''f'' then Some (CHR 0x0C)
      else if e = CHR ''n'' then Some (CHR 0x0A)
      else if e = CHR ''r'' then Some (CHR 0x0D)
      else if e = CHR ''t'' then Some (CHR 0x09)
      else None)"

text \<open>
  The body of a string literal, after its opening quote (strict mode: a raw control
  character is an error). An escape \<^verbatim>\<open>\uxxxx\<close> of a code point from 256 on denotes a
  character that the strings of this model do not have; it is rejected here.
\<close>

fun scanstring :: "string \<Rightarrow> string \<Rightarrow> error + (string \<times> string)" where
  "scanstring [] acc = Inl JSONDecodeError"
| "scanstring (c # cs) acc =
     (if c = CHR 0x22 then Inr (acc, cs)
      else if c = CHR 0x5C then
        (case cs of
           [] \<Rightarrow> Inl JSONDecodeError
         | e # es \<Rightarrow>
             if e = CHR ''u'' then
               (case es of
                  h1 # h2 # h3 # h4 # rest \<Rightarrow>
                    (case hex4 h1 h2 h3 h4 of
                       None \<Rightarrow> Inl JSONDecodeError
                     | Some n \<Rightarrow>
                         if n < 256 then scanstring rest (acc @ [char_of n])
                         else Inl JSONDecodeError)
                | _ \<Rightarrow> Inl JSONDecodeError)
             else
               (case unescape e of
                  None \<Rightarrow> Inl JSONDecodeError
                | Some ch \<Rightarrow> scanstring es (acc @ [ch])))
      else if (of_char c :: nat) < 32 then Inl JSONDecodeError
      else scanstring cs (acc @ [c]))"

text \<open>
  A number: an optional minus sign, then \<^verbatim>\<open>0\<close> or a digit from 1 to 9 followed by
  digits. When a fraction or an exponent follows, the literal is a float, which this
  model does not represent; it is rejected here, as are \<^verbatim>\<open>NaN\<close> and \<^verbatim>\<open>Infinity\<close>.
  An integer literal of more digits than the limit raises \<^verbatim>\<open>ValueError\<close>. \<open>int_part\<close>
  returns the digits of the integer part and the text after them.
\<close>

definition nat_of_digits :: "string \<Rightarrow> nat" where
  "nat_of_digits ds = foldl (\<lambda>a c. a * 10 + digit_val c) 0 ds"

definition int_part :: "string \<Rightarrow> (string \<times> string) option" where
  "int_part s =
     (case s of
        [] \<Rightarrow> None
      | c # cs \<Rightarrow>
          if c = CHR ''0'' then Some (''0'', cs)
          else if is_digit c then Some (takeWhile is_digit s, dropWhile is_digit s)
          else None)"

definition float_tail :: "string \<Rightarrow> bool" where
  "float_tail r =
     (case r of
        [] \<Rightarrow> False
      | c # cs \<Rightarrow>
          if c = CHR ''.'' then (case cs of [] \<Rightarrow> False | d # _ \<Rightarrow> is_digit d)
          else if c = CHR ''e'' \<or> c = CHR ''E'' then
            (case cs of
               [] \<Rightarrow> False
             | d # ds \<Rightarrow>
                 if d = CHR ''+'' \<or> d = CHR ''-'' then (case ds of [] \<Rightarrow> False | d2 # _ \<Rightarrow> is_digit d2)
                 else is_digit d)
          else False)"

definition scan_number :: "string \<Rightarrow> error + (pyval \<times> string)" where
  "scan_number s =
     (case s of
        [] \<Rightarrow> Inl JSONDecodeError
      | c # cs \<Rightarrow>
          (case int_part (if c = CHR ''-'' then cs else s) of
             None \<Rightarrow> Inl JSONDecodeError
           | Some (ds, r) \<Rightarrow>
               if float_tail r then Inl JSONDecodeError
               else if max_str_digits < length ds then Inl ValueError
               else Inr (PInt (if c = CHR ''-'' then - int (nat_of_digits ds)
                               else int (nat_of_digits ds)), r)))"

definition starts_with :: "string \<Rightarrow> string \<Rightarrow> bool" where
  "starts_with p s = (take (length p) s = p)"

text \<open>
  \<open>scan_once\<close> reads one value, \<open>array_items\<close> the elements of a non-empty array and
  \<open>object_members\<close> the members of a non-empty object, each from the text that is left
  and each returning the text after what it read. The first argument bounds the number
  of nested calls; \<open>loads\<close> starts with more than twice the length of the text, which
  is never used up.
\<close>

fun scan_once :: "nat \<Rightarrow> string \<Rightarrow> error + (pyval \<times> string)"
  and array_items :: "nat \<Rightarrow> string \<Rightarrow> pyval list \<Rightarrow> error + (pyval \<times> string)"
  and object_members :: "nat \<Rightarrow> string \<Rightarrow> (pykey \<times> pyval) list \<Rightarrow> error + (pyval \<times> string)"
where
  "scan_once 0 s = Inl RecursionError"
| "scan_once (Suc n) [] = Inl JSONDecodeError"
| "scan_once (Suc n) (c # cs) =
     (if c = CHR 0x22 then
        (case scanstring cs [] of Inl e \<Rightarrow> Inl e | Inr (t, r) \<Rightarrow> Inr (PStr t, r))
      else if c = CHR ''{'' then
        (case skip_ws cs of
           [] \<Rightarrow> Inl JSONDecodeError
         | d # ds \<Rightarrow>
             if d = CHR ''}'' then Inr (PDict [], ds)
             else if d = CHR 0x22 then object_members n (d # ds) []
             else Inl JSONDecodeError)
      else if c = CHR ''['' then
        (case skip_ws cs of
           [] \<Rightarrow> Inl JSONDecodeError
         | d # ds \<Rightarrow> if d = CHR '']'' then Inr (PList [], ds) else array_items n (d # ds) [])
      else if starts_with ''null'' (c # cs) then Inr (PNone, drop 4 (c # cs))
      else if starts_with ''true'' (c # cs) then Inr (PBool True, drop 4 (c # cs))
      else if starts_with ''false'' (c # cs) then Inr (PBool False, drop 5 (c # cs))
      else scan_number (c # cs))"
| "array_items 0 s acc = Inl RecursionError"
| "array_items (Suc n) s acc =
     (case scan_once n s of
        Inl e \<Rightarrow> Inl e
      | Inr (v, r) \<Rightarrow>
          (case skip_ws r of
             [] \<Rightarrow> Inl JSONDecodeError
           | d # ds \<Rightarrow>
               if d = CHR '']'' then Inr (PList (acc @ [v]), ds)
               else if d = CHR '','' then array_items n (skip_ws ds) (acc @ [v])
               else Inl JSONDecodeError))"
| "object_members 0 s acc = Inl RecursionError"
| "object_members (Suc n) s acc =
     (case s of
        [] \<Rightarrow> Inl JSONDecodeError
      | q # s1 \<Rightarrow>
          if q \<noteq> CHR 0x22 then Inl JSONDecodeError
          else
            (case scanstring s1 [] of
               Inl e \<Rightarrow> Inl e
             | Inr (k, r) \<Rightarrow>
                 (case skip_ws r of
                    [] \<Rightarrow> Inl JSONDecodeError
                  | c # cs \<Rightarrow>
                      if c \<noteq> CHR '':'' then Inl JSONDecodeError
                      else
                        (case scan_once n (skip_ws cs) of
                           Inl e \<Rightarrow> Inl e
                         | Inr (v, r2) \<Rightarrow>
                             (case skip_ws r2 of
                                [] \<Rightarrow> Inl JSONDecodeError
                              | d # ds \<Rightarrow>
                                  if d = CHR ''}'' then Inr (PDict (dict_set (KStr k) v acc), ds)
                                  else if d = CHR '','' then
                                    object_members n (skip_ws ds) (dict_set (KStr k) v acc)
                                  else Inl JSONDecodeError)))))"

definition loads :: "string \<Rightarrow> error + pyval" where
  "loads s =
     (case scan_once (Suc (2 * length s)) (skip_ws s) of
        Inl e \<Rightarrow> Inl e
      | Inr (v, r) \<Rightarrow> if skip_ws r = [] then Inr v else Inl JSONDecodeError)"

section \<open>TypeVerificationMixin\<close>

text \<open>
  The three static methods \<^verbatim>\<open>_verify_bool\<close>, \<^verbatim>\<open>_verify_int8bit\<close> and
  \<^verbatim>\<open>_verify_range\<close> (an Isabelle name cannot start with an underscore).
\<close>

definition verify_bool :: "pyval \<Rightarrow> error + bool" where
  "verify_bool val = Inr (py_bool val)"

definition verify_int8bit :: "pyval \<Rightarrow> error + int" where
  "verify_int8bit val =
     (case py_int val of
        Inl e \<Rightarrow> Inl e
      | Inr v \<Rightarrow> if v > 255 \<or> v < 1 then Inl ValueError else Inr v)"

definition verify_range :: "pyval \<Rightarrow> int \<Rightarrow> int \<Rightarrow> error + int" where
  "verify_range val min_val max_val =
     (case py_int val of
        Inl e \<Rightarrow> Inl e
      | Inr v \<Rightarrow> if v > max_val \<or> v < min_val then Inl ValueError else Inr v)"

section \<open>The class WLED\<close>

text \<open>
  The object holds the device address and the four documents. What lies outside the
  program is the \<open>world\<close>: the device behind the HTTP transport, which answers a request
  with a response text or makes the call raise, and may answer according to the requests
  it has seen; the requests issued so far; the files that can be read, with their
  contents; and, for a path that cannot be opened for writing, the exception that
  opening it raises.
\<close>

record wled =
  ip_addr :: string
  state :: pyval
  info :: pyval
  effects :: pyval
  palettes :: pyval

datatype request = GET string | POST string pyval

record world =
  respond :: "request list \<Rightarrow> request \<Rightarrow> error + string"
  sent :: "request list"
  files :: "string \<Rightarrow> string option"
  write_error :: "string \<Rightarrow> error option"

text \<open>
  A method that can raise and can change the object and the world returns the raised
  exception or its value, with the object and the world as it leaves them.
\<close>

type_synonym 'a outcome = "(error + 'a) \<times> wled \<times> world"

text \<open>\<^verbatim>\<open>"/".join(parts)\<close>\<close>

fun join_slash :: "string list \<Rightarrow> string" where
  "join_slash [] = []"
| "join_slash [x] = x"
| "join_slash (x # y # r) = x @ ''/'' @ join_slash (y # r)"

definition state_url :: "wled \<Rightarrow> string" where
  "state_url w = join_slash [''http:/'', ip_addr w, ''json'', ''state'']"

text \<open>
  \<^verbatim>\<open>requests.get\<close> and \<^verbatim>\<open>requests.post\<close>: the call raises or returns the response, of
  which the program reads the text only (it never looks at the status code). What the
  call does before it sends, such as encoding the document of a POST, is part of the
  answer of the world.
\<close>

definition http :: "request \<Rightarrow> world \<Rightarrow> (error + string) \<times> world" where
  "http rq x = (respond x (sent x) rq, x\<lparr>sent := sent x @ [rq]\<rparr>)"

definition loaded :: "wled \<Rightarrow> error + bool" where
  "loaded w =
     (case len_keys (state w) of
        Inl e \<Rightarrow> Inl e
      | Inr n1 \<Rightarrow>
          (case len_keys (info w) of
             Inl e \<Rightarrow> Inl e
           | Inr n2 \<Rightarrow>
               (case py_len (effects w) of
                  Inl e \<Rightarrow> Inl e
                | Inr n3 \<Rightarrow>
                    (case py_len (palettes w) of
                       Inl e \<Rightarrow> Inl e
                     | Inr n4 \<Rightarrow> Inr (n1 \<noteq> 0 \<and> n2 \<noteq> 0 \<and> n3 \<noteq> 0 \<and> n4 \<noteq> 0)))))"

definition get_json :: "string \<Rightarrow> wled \<Rightarrow> world \<Rightarrow> pyval outcome" where
  "get_json endpoint w x =
     (case http (GET (join_slash [''http:/'', ip_addr w, ''json'', endpoint])) x of
        (Inl e, x') \<Rightarrow> (Inl e, w, x')
      | (Inr text, x') \<Rightarrow> (loads text, w, x'))"

definition pull_state :: "wled \<Rightarrow> world \<Rightarrow> unit outcome" where
  "pull_state w x =
     (case get_json ''state'' w x of
        (Inl e, w1, x1) \<Rightarrow> (Inl e, w1, x1)
      | (Inr d1, w1, x1) \<Rightarrow>
          (case get_json ''info'' (w1\<lparr>state := d1\<rparr>) x1 of
             (Inl e, w2, x2) \<Rightarrow> (Inl e, w2, x2)
           | (Inr d2, w2, x2) \<Rightarrow>
               (case get_json ''eff'' (w2\<lparr>info := d2\<rparr>) x2 of
                  (Inl e, w3, x3) \<Rightarrow> (Inl e, w3, x3)
                | (Inr d3, w3, x3) \<Rightarrow>
                    (case get_json ''pal'' (w3\<lparr>effects := d3\<rparr>) x3 of
                       (Inl e, w4, x4) \<Rightarrow> (Inl e, w4, x4)
                     | (Inr d4, w4, x4) \<Rightarrow> (Inr (), w4\<lparr>palettes := d4\<rparr>, x4)))))"

text \<open>
  \<^verbatim>\<open>self.state.update({"v": get_resp})\<close>: only a dictionary has the method.
\<close>

fun dict_update_v :: "pyval \<Rightarrow> bool \<Rightarrow> error + pyval" where
  "dict_update_v (PDict kvs) b = Inr (PDict (dict_set (KStr ''v'') (PBool b) kvs))"
| "dict_update_v v b = Inl AttributeError"

definition push_state :: "bool \<Rightarrow> wled \<Rightarrow> world \<Rightarrow> unit outcome" where
  "push_state get_resp w x =
     (case (if get_resp then dict_update_v (state w) get_resp else Inr (state w)) of
        Inl e \<Rightarrow> (Inl e, w, x)
      | Inr st \<Rightarrow>
          (case http (POST (state_url w) st) x of
             (Inl e, x') \<Rightarrow> (Inl e, w\<lparr>state := st\<rparr>, x')
           | (Inr text, x') \<Rightarrow>
               if get_resp then
                 (case loads text of
                    Inl e \<Rightarrow> (Inl e, w\<lparr>state := st\<rparr>, x')
                  | Inr d \<Rightarrow> (Inr (), w\<lparr>state := d\<rparr>, x'))
               else (Inr (), w\<lparr>state := st\<rparr>, x')))"

text \<open>
  The two file methods. \<open>files x p = Some t\<close> says that the file at path \<open>p\<close> can be read
  and holds the text \<open>t\<close>. Opening a path for writing raises what the world says
  (\<^verbatim>\<open>FileNotFoundError\<close> when the directory is missing, say); otherwise it leaves the
  file empty, \<^verbatim>\<open>dumps\<close> is called, and the file holds the written text once the
  \<^verbatim>\<open>with\<close> block is left.
\<close>

definition state_file :: "string \<Rightarrow> string" where
  "state_file file_name = ''./saved_states/'' @ file_name @ ''.json''"

definition save_state_file :: "string \<Rightarrow> wled \<Rightarrow> world \<Rightarrow> unit outcome" where
  "save_state_file file_name w x =
     (case write_error x (state_file file_name) of
        Some e \<Rightarrow> (Inl e, w, x)
      | None \<Rightarrow>
          (case dumps (state w) of
             Inl e \<Rightarrow> (Inl e, w, x\<lparr>files := (files x)(state_file file_name \<mapsto> [])\<rparr>)
           | Inr text \<Rightarrow> (Inr (), w, x\<lparr>files := (files x)(state_file file_name \<mapsto> text)\<rparr>)))"

definition load_state_file :: "string \<Rightarrow> wled \<Rightarrow> world \<Rightarrow> unit outcome" where
  "load_state_file file_name w x =
     (case files x (state_file file_name) of
        None \<Rightarrow> (Inl FileNotFoundError, w, x)
      | Some text \<Rightarrow>
          (case loads text of
             Inl e \<Rightarrow> (Inl e, w, x)
           | Inr d \<Rightarrow> (Inr (), w\<lparr>state := d\<rparr>, x)))"

text \<open>
  The constructor: the empty documents, then \<^verbatim>\<open>pull_state\<close>. When the pull raises, so
  does the constructor and no object comes to exist.
\<close>

definition WLED_init :: "string \<Rightarrow> world \<Rightarrow> (error + wled) \<times> world" where
  "WLED_init addr x =
     (case pull_state \<lparr>ip_addr = addr, state = PDict [], info = PDict [],
                        effects = PList [], palettes = PList []\<rparr> x of
        (Inl e, w, x') \<Rightarrow> (Inl e, x')
      | (Inr u, w, x') \<Rightarrow> (Inr w, x'))"

section \<open>The property views\<close>

text \<open>
  A \<^verbatim>\<open>ParentAccessor\<close> holds two closures over the device object: \<open>accessor\<close> reads an
  item of one of its sub-documents and \<open>setter\<close> writes one. The documents are trees,
  so the write inside the sub-document is a replacement of that sub-document in the
  state. \<^verbatim>\<open>SegmentListProperty\<close> adds \<open>info_accessor\<close> and \<^verbatim>\<open>SegmentItem\<close> adds the
  segment id to the same three closures.
\<close>

record parent_accessor =
  accessor :: "pykey \<Rightarrow> wled \<Rightarrow> error + pyval"
  setter :: "pykey \<Rightarrow> pyval \<Rightarrow> wled \<Rightarrow> (error + unit) \<times> wled"

record segment_list_property = parent_accessor +
  info_accessor :: "pykey \<Rightarrow> wled \<Rightarrow> error + pyval"

record segment_item = segment_list_property +
  seg_id :: int

text \<open>
  \<^verbatim>\<open>lambda k: self.state[name].__getitem__(k)\<close> and
  \<^verbatim>\<open>lambda k, v: self.state[name].__setitem__(k, v)\<close>, as \<^verbatim>\<open>PropertyWLED.__init__\<close>
  builds them for \<open>name\<close> \<^verbatim>\<open>"nl"\<close> and \<^verbatim>\<open>"seg"\<close>, and \<^verbatim>\<open>lambda k: self.info.__getitem__(k)\<close>.
\<close>

definition state_accessor :: "string \<Rightarrow> pykey \<Rightarrow> wled \<Rightarrow> error + pyval" where
  "state_accessor name k w =
     (case subscript (state w) (KStr name) of
        Inl e \<Rightarrow> Inl e
      | Inr sub \<Rightarrow> call_getitem sub k)"

text \<open>
  In the setter, \<^verbatim>\<open>self.state[name]\<close> with a string for \<open>name\<close> has a value only when
  the state is a dictionary (\<open>subscript\<close> gives \<^verbatim>\<open>TypeError\<close> on every other value), and
  the sub-document after the call takes the place of the one before it.
\<close>

definition state_setter :: "string \<Rightarrow> pykey \<Rightarrow> pyval \<Rightarrow> wled \<Rightarrow> (error + unit) \<times> wled" where
  "state_setter name k v w =
     (case state w of
        PDict kvs \<Rightarrow>
          (case map_of kvs (KStr name) of
             None \<Rightarrow> (Inl KeyError, w)
           | Some sub \<Rightarrow>
               (case call_setitem sub k v of
                  Inl e \<Rightarrow> (Inl e, w)
                | Inr sub' \<Rightarrow> (Inr (), w\<lparr>state := PDict (dict_set (KStr name) sub' kvs)\<rparr>)))
      | _ \<Rightarrow> (Inl TypeError, w))"

definition info_getitem :: "pykey \<Rightarrow> wled \<Rightarrow> error + pyval" where
  "info_getitem k w = call_getitem (info w) k"

definition nightlight_interface :: parent_accessor where
  "nightlight_interface = \<lparr>accessor = state_accessor ''nl'', setter = state_setter ''nl''\<rparr>"

definition segment_interface :: segment_list_property where
  "segment_interface =
     \<lparr>accessor = state_accessor ''seg'', setter = state_setter ''seg'',
      info_accessor = info_getitem\<rparr>"

subsection \<open>NightlightProperty\<close>

definition MODE_MAP :: "(string \<times> int) list" where
  "MODE_MAP = [(''instant'', 0), (''fade'', 1), (''color fade'', 2), (''sunrise'', 3)]"

text \<open>
  \<^verbatim>\<open>try: value = self._MODE_MAP[value]  except KeyError: pass\<close>. A list or a dictionary
  is not hashable, and the lookup raises \<^verbatim>\<open>TypeError\<close>, which is not caught.
\<close>

fun mode_lookup :: "pyval \<Rightarrow> error + pyval" where
  "mode_lookup (PStr s) = (case map_of MODE_MAP s of None \<Rightarrow> Inr (PStr s) | Some n \<Rightarrow> Inr (PInt n))"
| "mode_lookup (PList xs) = Inl TypeError"
| "mode_lookup (PDict kvs) = Inl TypeError"
| "mode_lookup v = Inr v"

definition mode_get :: "parent_accessor \<Rightarrow> wled \<Rightarrow> error + pyval" where
  "mode_get P w = accessor P (KStr ''mode'') w"

definition mode_set :: "parent_accessor \<Rightarrow> pyval \<Rightarrow> wled \<Rightarrow> (error + unit) \<times> wled" where
  "mode_set P val w =
     (case mode_lookup val of
        Inl e \<Rightarrow> (Inl e, w)
      | Inr v1 \<Rightarrow>
          (case py_int v1 of
             Inl e \<Rightarrow> (Inl e, w)
           | Inr i \<Rightarrow>
               (case verify_range (PInt i) 0 3 of
                  Inl e \<Rightarrow> (Inl e, w)
                | Inr r \<Rightarrow> setter P (KStr ''mode'') (PInt r) w)))"

subsection \<open>SegmentItem and SegmentListProperty\<close>

definition this_item :: "segment_item \<Rightarrow> wled \<Rightarrow> error + pyval" where
  "this_item S w = accessor S (KInt (seg_id S)) w"

definition start_get :: "segment_item \<Rightarrow> wled \<Rightarrow> error + pyval" where
  "start_get S w =
     (case this_item S w of
        Inl e \<Rightarrow> Inl e
      | Inr item \<Rightarrow> subscript item (KStr ''start''))"

definition start_set :: "segment_item \<Rightarrow> pyval \<Rightarrow> wled \<Rightarrow> (error + unit) \<times> wled" where
  "start_set S val w =
     (case verify_int8bit val of
        Inl e \<Rightarrow> (Inl e, w)
      | Inr v \<Rightarrow> setter S (KInt (seg_id S)) (PInt v) w)"

definition SegmentItem :: "segment_list_property \<Rightarrow> int \<Rightarrow> segment_item" where
  "SegmentItem P item =
     \<lparr>accessor = accessor P, setter = setter P, info_accessor = info_accessor P, seg_id = item\<rparr>"

text \<open>
  \<^verbatim>\<open>SegmentListProperty.__getitem__\<close>: a method that reaches its end without a
  \<^verbatim>\<open>return\<close> returns \<^verbatim>\<open>None\<close>, here \<open>None\<close>. The \<^verbatim>\<open>print\<close> of the method is left out.
\<close>

definition segment_getitem :: "segment_list_property \<Rightarrow> int \<Rightarrow> wled \<Rightarrow> error + segment_item option" where
  "segment_getitem P item w =
     (case info_accessor P (KStr ''leds'') w of
        Inl e \<Rightarrow> Inl e
      | Inr leds \<Rightarrow>
          (case subscript leds (KStr ''maxseg'') of
             Inl e \<Rightarrow> Inl e
           | Inr max_seg \<Rightarrow>
               (case int_lt item max_seg of
                  Inl e \<Rightarrow> Inl e
                | Inr b \<Rightarrow> Inr (if b then Some (SegmentItem P item) else None))))"

section \<open>JSON documents and the round trip\<close>

text \<open>
  A document that \<^verbatim>\<open>json.loads\<close> can have built has strings as keys, no key twice in a
  dictionary (a Python dictionary never has; the association list could), and integers
  within the digit limit.
\<close>

fun is_str_key :: "pykey \<Rightarrow> bool" where
  "is_str_key (KStr s) = True"
| "is_str_key (KInt i) = False"

fun json_doc :: "pyval \<Rightarrow> bool" where
  "json_doc (PInt i) = int_ok i"
| "json_doc (PList xs) = (\<forall>x\<in>set xs. json_doc x)"
| "json_doc (PDict kvs) =
     (distinct (map fst kvs) \<and> (\<forall>p\<in>set kvs. is_str_key (fst p) \<and> json_doc (snd p)))"
| "json_doc v = True"

text \<open>
  Notions for the proof that \<open>loads\<close> reads back what \<open>encode\<close> writes: the text of one
  member of an object, the text that may follow a value inside a document that \<open>encode\<close>
  wrote, the first character of a value, and the statement proved by induction on the
  value.
\<close>

definition delim :: "string \<Rightarrow> bool" where
  "delim r = (case r of [] \<Rightarrow> True | c # _ \<Rightarrow> c = CHR '','' \<or> c = CHR '']'' \<or> c = CHR ''}'')"




section \<open>A device and four worlds for concrete runs\<close>

text \<open>
  A device object with two segments whose capability document gives \<^verbatim>\<open>maxseg\<close> 2, the
  states that the runs below reach from it, the same device with a dictionary under
  \<^verbatim>\<open>"seg"\<close> before and after the start of segment 0 is set and after a reload, a world \<open>flaky\<close> whose device answers the
  request for the state with an empty object and lets every other request fail, a
  world \<open>echo\<close> whose device answers a POST with the document it received, a world
  \<open>bare\<close> whose device answers every request with an empty document, and a world
  \<open>disk\<close> in which one state file can be written.
\<close>

definition nl2 :: "(pykey \<times> pyval) list" where
  "nl2 = [(KStr ''on'', PBool False), (KStr ''dur'', PInt 60), (KStr ''mode'', PInt 0)]"

definition segs2 :: "pyval list" where
  "segs2 = [PDict [(KStr ''start'', PInt 0), (KStr ''stop'', PInt 20)],
            PDict [(KStr ''start'', PInt 20), (KStr ''stop'', PInt 30)]]"

definition st2 :: "(pykey \<times> pyval) list" where
  "st2 = [(KStr ''on'', PBool True), (KStr ''bri'', PInt 128), (KStr ''nl'', PDict nl2),
          (KStr ''seg'', PList segs2)]"

definition info2 :: pyval where
  "info2 = PDict [(KStr ''ver'', PStr ''0.13''),
                  (KStr ''leds'', PDict [(KStr ''count'', PInt 30), (KStr ''maxseg'', PInt 2)])]"

definition dev2 :: wled where
  "dev2 = \<lparr>ip_addr = ''10.10.10.125'', state = PDict st2, info = info2,
           effects = PList [PStr ''Solid''], palettes = PList [PStr ''Default'']\<rparr>"

definition with_mode :: "int \<Rightarrow> wled" where
  "with_mode n =
     dev2\<lparr>state := PDict [(KStr ''on'', PBool True), (KStr ''bri'', PInt 128),
       (KStr ''nl'', PDict [(KStr ''on'', PBool False), (KStr ''dur'', PInt 60), (KStr ''mode'', PInt n)]),
       (KStr ''seg'', PList segs2)]\<rparr>"

definition start_written :: wled where
  "start_written =
     dev2\<lparr>state := PDict [(KStr ''on'', PBool True), (KStr ''bri'', PInt 128), (KStr ''nl'', PDict nl2),
       (KStr ''seg'', PList [PDict [(KStr ''start'', PInt 0), (KStr ''stop'', PInt 20)], PInt 7])]\<rparr>"

definition dev2_flagged :: pyval where
  "dev2_flagged =
     PDict [(KStr ''on'', PBool True), (KStr ''bri'', PInt 128), (KStr ''nl'', PDict nl2),
            (KStr ''seg'', PList segs2), (KStr ''v'', PBool True)]"

definition flaky :: world where
  "flaky = \<lparr>respond = (\<lambda>log rq. if rq = GET ''http://10.10.10.125/json/state'' then Inr ''{}''
                                  else Inl ConnectionError),
            sent = [], files = (\<lambda>p. None), write_error = (\<lambda>p. Some FileNotFoundError)\<rparr>"

definition echo :: world where
  "echo = \<lparr>respond = (\<lambda>log rq. case rq of GET u \<Rightarrow> Inl ConnectionError | POST u b \<Rightarrow> Inr (encode b)),
           sent = [], files = (\<lambda>p. None), write_error = (\<lambda>p. Some FileNotFoundError)\<rparr>"

definition bare :: world where
  "bare = \<lparr>respond = (\<lambda>log rq. if rq = GET ''http://10.10.10.125/json/state''
                                     \<or> rq = GET ''http://10.10.10.125/json/info''
                                  then Inr ''{}'' else Inr ''[]''),
           sent = [], files = (\<lambda>p. None), write_error = (\<lambda>p. Some FileNotFoundError)\<rparr>"

definition seg_dict :: wled where
  "seg_dict = dev2\<lparr>state := PDict [(KStr ''on'', PBool True),
                                    (KStr ''seg'', PDict [(KStr ''dur'', PInt 5)])]\<rparr>"

definition seg_keyed :: wled where
  "seg_keyed = dev2\<lparr>state := PDict [(KStr ''on'', PBool True),
                                     (KStr ''seg'', PDict [(KStr ''dur'', PInt 5), (KInt 0, PInt 7)])]\<rparr>"

definition seg_reloaded :: wled where
  "seg_reloaded = dev2\<lparr>state := PDict [(KStr ''on'', PBool True),
                                        (KStr ''seg'', PDict [(KStr ''dur'', PInt 5), (KStr ''0'', PInt 7)])]\<rparr>"

definition disk :: world where
  "disk = \<lparr>respond = (\<lambda>log rq. Inl ConnectionError), sent = [], files = (\<lambda>p. None),
           write_error = (\<lambda>p. if p = ''./saved_states/comp2.json'' then None
                               else Some FileNotFoundError)\<rparr>"

section \<open>Properties of the validators\<close>

text \<open>
  C5: for every integer \<open>v\<close> the 8-bit validator returns \<open>v\<close> exactly when
  \<open>1 \<le> v \<le> 255\<close>, and raises \<^verbatim>\<open>ValueError\<close> for every other integer.
\<close>

theorem verify_int8bit_range:
  "verify_int8bit (PInt v) = (if 1 \<le> v \<and> v \<le> 255 then Inr v else Inl ValueError)"
  by (simp add: verify_int8bit_def not_le not_less)

theorem verify_int8bit_range_witness:
  "verify_int8bit (PInt 255) = Inr 255 \<and> verify_int8bit (PInt 0) = Inl ValueError
   \<and> verify_int8bit (PInt 256) = Inl ValueError \<and> verify_int8bit (PInt 1) = Inr 1"
  using verify_int8bit_range [of 255] verify_int8bit_range [of 0]
    verify_int8bit_range [of 256] verify_int8bit_range [of 1]
  by simp

text \<open>
  C9: \<^verbatim>\<open>_verify_bool\<close> returns for every value and never raises; the result is false
  exactly for the falsy values (\<^verbatim>\<open>None\<close>, \<^verbatim>\<open>False\<close>, \<open>0\<close>, the empty string, list and
  dictionary) and true for every other value. It is a function of its argument alone.
\<close>

theorem verify_bool_total:
  "verify_bool v = Inr (v \<notin> {PNone, PBool False, PInt 0, PStr [], PList [], PDict []})"
  by (cases v) (auto simp: verify_bool_def)

theorem verify_bool_total_witness:
  "verify_bool (PStr ''False'') = Inr True \<and> verify_bool (PInt 0) = Inr False
   \<and> verify_bool (PList [PInt 0]) = Inr True \<and> verify_bool PNone = Inr False"
  using verify_bool_total [of "PStr ''False''"] verify_bool_total [of "PInt 0"]
    verify_bool_total [of "PList [PInt 0]"] verify_bool_total [of PNone]
  by simp

section \<open>The concrete runs\<close>

lemma dev2_state: "state dev2 = PDict st2"
  by (simp add: dev2_def)

lemma dev2_url: "state_url dev2 = ''http://10.10.10.125/json/state''"
  by (simp add: state_url_def dev2_def)

lemma st2_nl: "map_of st2 (KStr ''nl'') = Some (PDict nl2)"
  by (simp add: st2_def)

lemma st2_seg: "map_of st2 (KStr ''seg'') = Some (PList segs2)"
  by (simp add: st2_def)

lemma st2_flagged: "PDict (dict_set (KStr ''v'') (PBool True) st2) = dev2_flagged"
  by (simp add: st2_def dev2_flagged_def)

lemma loads_empty_object: "loads ''{}'' = Inr (PDict [])"
  by code_simp

lemma loads_empty_array: "loads ''[]'' = Inr (PList [])"
  by code_simp

lemma init_bare:
  "WLED_init ''10.10.10.125'' bare
     = (Inr \<lparr>ip_addr = ''10.10.10.125'', state = PDict [], info = PDict [],
               effects = PList [], palettes = PList []\<rparr>,
        bare\<lparr>sent := [GET ''http://10.10.10.125/json/state'', GET ''http://10.10.10.125/json/info'',
                       GET ''http://10.10.10.125/json/eff'', GET ''http://10.10.10.125/json/pal'']\<rparr>)"
  by (simp add: WLED_init_def pull_state_def get_json_def http_def bare_def
      loads_empty_object loads_empty_array)

lemma loads_flagged: "loads (encode dev2_flagged) = Inr dev2_flagged"
  by code_simp

lemma py_int_str_3: "py_int_str '' 3'' = Inr 3"
  by (simp add: py_int_str_def py_strip_def py_isspace_def unsigned_literal_def is_digit_def
      digit_val_def max_str_digits_def)

lemma py_int_str_night: "py_int_str ''night'' = Inl ValueError"
  by (simp add: py_int_str_def py_strip_def py_isspace_def unsigned_literal_def is_digit_def
      max_str_digits_def)

lemma py_int_str_colorFade: "py_int_str ''colorFade'' = Inl ValueError"
  by (simp add: py_int_str_def py_strip_def py_isspace_def unsigned_literal_def is_digit_def
      max_str_digits_def)

lemma pull_flaky:
  "pull_state dev2 flaky
     = (Inl ConnectionError, dev2\<lparr>state := PDict []\<rparr>,
        flaky\<lparr>sent := [GET ''http://10.10.10.125/json/state'', GET ''http://10.10.10.125/json/info'']\<rparr>)"
  by (simp add: pull_state_def get_json_def http_def flaky_def loads_empty_object dev2_def)

lemma push_flaky:
  "push_state True dev2 flaky
     = (Inl ConnectionError, dev2\<lparr>state := dev2_flagged\<rparr>,
        flaky\<lparr>sent := [POST ''http://10.10.10.125/json/state'' dev2_flagged]\<rparr>)"
  by (simp add: push_state_def dev2_state st2_flagged dev2_url http_def flaky_def)

lemma push_false_flaky:
  "push_state False dev2 flaky
     = (Inl ConnectionError, dev2, flaky\<lparr>sent := [POST ''http://10.10.10.125/json/state'' (state dev2)]\<rparr>)"
  by (simp add: push_state_def dev2_url http_def flaky_def)

lemma pull_echo:
  "pull_state dev2 echo
     = (Inl ConnectionError, dev2, echo\<lparr>sent := [GET ''http://10.10.10.125/json/state'']\<rparr>)"
  by (simp add: pull_state_def get_json_def http_def echo_def dev2_def)

section \<open>What \<open>loads\<close> returns\<close>

text \<open>
  Each of the three decoding functions returns a text shorter than the one it was given
  and a JSON document; with a bound above twice the length of the text the bound is
  never used up, so that \<open>loads\<close> fails with \<^verbatim>\<open>JSONDecodeError\<close> or, on an integer
  beyond the digit limit, \<^verbatim>\<open>ValueError\<close> only.
\<close>

lemma skip_ws_length: "length (skip_ws s) \<le> length s"
  by (simp add: skip_ws_def length_dropWhile_le)

lemma skip_ws_Cons_length: "skip_ws s = c # t \<Longrightarrow> length t < length s"
  using skip_ws_length [of s] by simp

lemma scanstring_length: "scanstring s acc = Inr (k, r) \<Longrightarrow> length r < length s"
proof (induction s acc arbitrary: k r rule: scanstring.induct)
  case (1 acc)
  then show ?case by simp
next
  case (2 c cs acc)
  show ?case
  proof (cases "c = CHR 0x22")
    case True
    with "2.prems" show ?thesis by simp
  next
    case nq: False
    show ?thesis
    proof (cases "c = CHR 0x5C")
      case False
      with nq "2.prems" "2.IH"(3) [of k r] show ?thesis
        by (auto split: if_splits)
    next
      case True
      with nq "2.prems" obtain e es where cs: "cs = e # es" by (cases cs) auto
      show ?thesis
      proof (cases "e = CHR ''u''")
        case False
        with nq True cs "2.prems" "2.IH"(2) [of e es _ k r] show ?thesis
          by (auto split: option.splits)
      next
        case u: True
        with nq True cs "2.prems" obtain h1 h2 h3 h4 rest where es: "es = h1 # h2 # h3 # h4 # rest"
          by (auto split: list.splits)
        with nq True cs u "2.prems" obtain m where m: "hex4 h1 h2 h3 h4 = Some m" "m < 256"
            "scanstring rest (acc @ [char_of m]) = Inr (k, r)"
          by (auto split: option.splits if_splits)
        have "length r < length rest"
          using "2.IH"(1) [OF nq True cs u es refl refl refl m(1) m(2) m(3)] .
        then show ?thesis by (simp add: cs es)
      qed
    qed
  qed
qed

lemma int_part_cases:
  assumes "int_part s = Some (ds, r)"
  obtains (zero) cs where "s = CHR ''0'' # cs" and "ds = ''0''" and "r = cs"
  | (digits) "s \<noteq> []" and "is_digit (hd s)" and "ds = takeWhile is_digit s" and "r = dropWhile is_digit s"
proof (cases s)
  case Nil
  with assms show thesis by (simp add: int_part_def)
next
  case (Cons c cs)
  show thesis
  proof (cases "c = CHR ''0''")
    case True
    with assms Cons have "ds = ''0''" "r = cs" by (simp_all add: int_part_def)
    with Cons True show thesis using zero by blast
  next
    case False
    show thesis
    proof (cases "is_digit c")
      case True
      with assms Cons False have "ds = takeWhile is_digit s" "r = dropWhile is_digit s"
        by (simp_all add: int_part_def)
      with Cons True show thesis using digits by simp
    next
      case nd: False
      with assms Cons False show thesis by (simp add: int_part_def)
    qed
  qed
qed

lemma int_part_length: "int_part s = Some (ds, r) \<Longrightarrow> length r < length s"
proof (erule int_part_cases)
  fix cs assume "s = CHR ''0'' # cs" "r = cs"
  then show "length r < length s" by simp
next
  assume a: "s \<noteq> []" "is_digit (hd s)" "r = dropWhile is_digit s"
  then obtain c cs where s: "s = c # cs" by (cases s) auto
  have "length (dropWhile is_digit cs) \<le> length cs" by (rule length_dropWhile_le)
  with a s show "length r < length s" by simp
qed

lemma int_part_digits: "int_part s = Some (ds, r) \<Longrightarrow> \<forall>c\<in>set ds. is_digit c"
proof (erule int_part_cases)
  assume "ds = ''0''"
  then show "\<forall>c\<in>set ds. is_digit c" by (simp add: is_digit_def)
next
  assume "ds = takeWhile is_digit s"
  then show "\<forall>c\<in>set ds. is_digit c" using set_takeWhileD by fastforce
qed

lemma int_part_nonempty: "int_part s = Some (ds, r) \<Longrightarrow> ds \<noteq> []"
proof (erule int_part_cases)
  assume "ds = ''0''"
  then show "ds \<noteq> []" by simp
next
  assume a: "s \<noteq> []" "is_digit (hd s)" "ds = takeWhile is_digit s"
  then show "ds \<noteq> []" by (cases s) auto
qed

lemma nat_of_digits_bound: "\<forall>c\<in>set ds. is_digit c \<Longrightarrow> nat_of_digits ds < 10 ^ length ds"
proof (induction ds rule: rev_induct)
  case Nil
  show ?case by (simp add: nat_of_digits_def)
next
  case (snoc c ds)
  have "is_digit c" using snoc.prems by simp
  then have "digit_val c \<le> 9" by (auto simp: is_digit_def digit_val_def)
  moreover have "nat_of_digits ds < 10 ^ length ds" using snoc by simp
  moreover have "nat_of_digits (ds @ [c]) = nat_of_digits ds * 10 + digit_val c"
    by (simp add: nat_of_digits_def)
  ultimately show ?case by simp
qed

lemma show_nat_length: "n < 10 ^ k \<Longrightarrow> 0 < k \<Longrightarrow> length (show_nat n) \<le> k"
proof (induction n arbitrary: k rule: show_nat.induct)
  case (1 n)
  show ?case
  proof (cases "n < 10")
    case True
    with "1.prems" show ?thesis by (simp add: show_nat.simps [of n])
  next
    case False
    obtain j where k: "k = Suc j" using "1.prems"(2) by (cases k) auto
    have j: "0 < j" using False "1.prems"(1) k by (cases j) auto
    have "n div 10 < 10 ^ j" using "1.prems"(1) k by (simp add: less_mult_imp_div_less)
    then have "length (show_nat (n div 10)) \<le> j" using "1.IH" [OF False _ j] by simp
    then show ?thesis using False k by (simp add: show_nat.simps [of n])
  qed
qed

lemma int_ok_literal:
  assumes "\<forall>c\<in>set ds. is_digit c" and "ds \<noteq> []" and "length ds \<le> max_str_digits"
  shows "int_ok (int (nat_of_digits ds))" and "int_ok (- int (nat_of_digits ds))"
proof -
  have "length (show_nat (nat_of_digits ds)) \<le> length ds"
    using show_nat_length [OF nat_of_digits_bound [OF assms(1)]] assms(2) by simp
  then show "int_ok (int (nat_of_digits ds))" and "int_ok (- int (nat_of_digits ds))"
    using assms(3) by (simp_all add: int_ok_def)
qed

lemma dict_set_keys: "fst ` set (dict_set k v kvs) = insert k (fst ` set kvs)"
  by (induction kvs) auto

lemma dict_set_distinct: "distinct (map fst kvs) \<Longrightarrow> distinct (map fst (dict_set k v kvs))"
  by (induction kvs) (auto simp: dict_set_keys)

lemma dict_set_subset: "set (dict_set k v kvs) \<subseteq> insert (k, v) (set kvs)"
  by (induction kvs) auto

lemma dict_set_json_doc:
  assumes "json_doc (PDict acc)" and "json_doc v"
  shows "json_doc (PDict (dict_set (KStr k) v acc))"
  using assms dict_set_subset [of "KStr k" v acc] dict_set_distinct [of acc "KStr k" v]
  by auto

lemma array_items_Suc_Inr:
  assumes "array_items (Suc n) s acc = Inr (v, r)"
  obtains x y d ds where "scan_once n s = Inr (x, y)" and "skip_ws y = d # ds"
    and "d = CHR '']'' \<and> v = PList (acc @ [x]) \<and> r = ds
         \<or> d \<noteq> CHR '']'' \<and> d = CHR '','' \<and> array_items n (skip_ws ds) (acc @ [x]) = Inr (v, r)"
proof -
  from assms obtain x y where so: "scan_once n s = Inr (x, y)"
    by (cases "scan_once n s") auto
  with assms obtain d ds where sk: "skip_ws y = d # ds"
    by (cases "skip_ws y") auto
  from assms so sk
  have "d = CHR '']'' \<and> v = PList (acc @ [x]) \<and> r = ds
         \<or> d \<noteq> CHR '']'' \<and> d = CHR '','' \<and> array_items n (skip_ws ds) (acc @ [x]) = Inr (v, r)"
    by (simp split: if_splits)
  with so sk show thesis by (rule that)
qed

lemma object_members_Suc_Inr:
  assumes "object_members (Suc n) s acc = Inr (v, r)"
  obtains s1 k y cs x y2 d ds where "s = CHR 0x22 # s1" and "scanstring s1 [] = Inr (k, y)"
    and "skip_ws y = CHR '':'' # cs" and "scan_once n (skip_ws cs) = Inr (x, y2)"
    and "skip_ws y2 = d # ds"
    and "d = CHR ''}'' \<and> v = PDict (dict_set (KStr k) x acc) \<and> r = ds
         \<or> d \<noteq> CHR ''}'' \<and> d = CHR '',''
           \<and> object_members n (skip_ws ds) (dict_set (KStr k) x acc) = Inr (v, r)"
proof -
  from assms obtain q s1 where s: "s = q # s1" by (cases s) auto
  with assms have q: "q = CHR 0x22" by (simp split: if_splits)
  from assms s q obtain k y where ss: "scanstring s1 [] = Inr (k, y)"
    by (cases "scanstring s1 []") auto
  from assms s q ss obtain c cs where sk: "skip_ws y = c # cs"
    by (cases "skip_ws y") auto
  from assms s q ss sk have c: "c = CHR '':''" by (simp split: if_splits)
  from assms s q ss sk c obtain x y2 where so: "scan_once n (skip_ws cs) = Inr (x, y2)"
    by (cases "scan_once n (skip_ws cs)") auto
  from assms s q ss sk c so obtain d ds where sk2: "skip_ws y2 = d # ds"
    by (cases "skip_ws y2") auto
  from assms s q ss sk c so sk2
  have "d = CHR ''}'' \<and> v = PDict (dict_set (KStr k) x acc) \<and> r = ds
         \<or> d \<noteq> CHR ''}'' \<and> d = CHR '',''
           \<and> object_members n (skip_ws ds) (dict_set (KStr k) x acc) = Inr (v, r)"
    by (simp split: if_splits)
  with s q ss sk c so sk2 show thesis using that by blast
qed


lemma scan_number_Inr:
  assumes "scan_number s = Inr (v, r)"
  shows "length r < length s \<and> (\<exists>i. v = PInt i \<and> int_ok i)"
proof (cases s)
  case Nil
  with assms show ?thesis by (simp add: scan_number_def)
next
  case (Cons c cs)
  let ?body = "if c = CHR ''-'' then cs else s"
  from assms Cons obtain ds where ip: "int_part ?body = Some (ds, r)"
    and lim: "\<not> max_str_digits < length ds"
    and v: "v = PInt (if c = CHR ''-'' then - int (nat_of_digits ds) else int (nat_of_digits ds))"
    by (auto simp: scan_number_def split: option.splits if_splits)
  have len: "length r < length s"
    using int_part_length [OF ip] Cons by (auto split: if_splits)
  have ok: "int_ok (int (nat_of_digits ds))" "int_ok (- int (nat_of_digits ds))"
    using int_ok_literal [OF int_part_digits [OF ip] int_part_nonempty [OF ip]] lim by simp_all
  show ?thesis using len v ok by auto
qed

lemma scan_once_Suc_Inr:
  assumes "scan_once (Suc n) (c # cs) = Inr (v, r)"
  obtains (str) t where "c = CHR 0x22" and "scanstring cs [] = Inr (t, r)" and "v = PStr t"
  | (obj0) "c \<noteq> CHR 0x22" and "c = CHR ''{''" and "skip_ws cs = CHR ''}'' # r" and "v = PDict []"
  | (obj) d ds where "c \<noteq> CHR 0x22" and "c = CHR ''{''" and "skip_ws cs = d # ds"
      and "d \<noteq> CHR ''}''" and "d = CHR 0x22" and "object_members n (d # ds) [] = Inr (v, r)"
  | (arr0) "c \<noteq> CHR 0x22" and "c \<noteq> CHR ''{''" and "c = CHR ''[''" and "skip_ws cs = CHR '']'' # r"
      and "v = PList []"
  | (arr) d ds where "c \<noteq> CHR 0x22" and "c \<noteq> CHR ''{''" and "c = CHR ''[''" and "skip_ws cs = d # ds"
      and "d \<noteq> CHR '']''" and "array_items n (d # ds) [] = Inr (v, r)"
  | (atom) "length r < length (c # cs)"
      and "v = PNone \<or> (\<exists>b. v = PBool b) \<or> (\<exists>i. v = PInt i \<and> int_ok i)"
proof (cases "c = CHR 0x22")
  case True
  with assms obtain t where "scanstring cs [] = Inr (t, r)" "v = PStr t"
    by (cases "scanstring cs []") auto
  with True show thesis by (rule str)
next
  case nq: False
  show thesis
  proof (cases "c = CHR ''{''")
    case True
    with nq assms obtain d ds where sk: "skip_ws cs = d # ds"
      by (cases "skip_ws cs") auto
    show thesis
    proof (cases "d = CHR ''}''")
      case True
      with nq \<open>c = CHR ''{''\<close> sk assms have "skip_ws cs = CHR ''}'' # r" "v = PDict []" by simp_all
      with nq \<open>c = CHR ''{''\<close> show thesis by (rule obj0)
    next
      case False
      with nq \<open>c = CHR ''{''\<close> sk assms have "d = CHR 0x22" "object_members n (d # ds) [] = Inr (v, r)"
        by (simp_all split: if_splits)
      with nq \<open>c = CHR ''{''\<close> sk False show thesis by (rule obj)
    qed
  next
    case nb: False
    show thesis
    proof (cases "c = CHR ''[''")
      case True
      with nq nb assms obtain d ds where sk: "skip_ws cs = d # ds"
        by (cases "skip_ws cs") auto
      show thesis
      proof (cases "d = CHR '']''")
        case True
        with nq nb \<open>c = CHR ''[''\<close> sk assms have "skip_ws cs = CHR '']'' # r" "v = PList []" by simp_all
        with nq nb \<open>c = CHR ''[''\<close> show thesis by (rule arr0)
      next
        case False
        with nq nb \<open>c = CHR ''[''\<close> sk assms have "array_items n (d # ds) [] = Inr (v, r)" by simp
        with nq nb \<open>c = CHR ''[''\<close> sk False show thesis by (rule arr)
      qed
    next
      case na: False
      have rest: "scan_once (Suc n) (c # cs)
          = (if starts_with ''null'' (c # cs) then Inr (PNone, drop 4 (c # cs))
             else if starts_with ''true'' (c # cs) then Inr (PBool True, drop 4 (c # cs))
             else if starts_with ''false'' (c # cs) then Inr (PBool False, drop 5 (c # cs))
             else scan_number (c # cs))"
        using nq nb na by simp
      have "length r < length (c # cs)
          \<and> (v = PNone \<or> (\<exists>b. v = PBool b) \<or> (\<exists>i. v = PInt i \<and> int_ok i))"
        using assms scan_number_Inr [of "c # cs" v r] unfolding rest
        by (auto split: if_splits)
      then show thesis using atom by blast
    qed
  qed
qed

lemma scan_result:
  "scan_once n s = Inr (v, r) \<Longrightarrow> length r < length s \<and> json_doc v"
  "array_items n s xs = Inr (v, r) \<Longrightarrow>
     length r < length s \<and> ((\<forall>x\<in>set xs. json_doc x) \<longrightarrow> json_doc v)"
  "object_members n s kvs = Inr (v, r) \<Longrightarrow>
     length r < length s \<and> (json_doc (PDict kvs) \<longrightarrow> json_doc v)"
proof (induction n s and n s xs and n s kvs arbitrary: v r and v r and v r
    rule: scan_once_array_items_object_members.induct)
  case (1 s)
  then show ?case by simp
next
  case (2 n)
  then show ?case by simp
next
  case (3 n c cs)
  from "3.prems" show ?case
  proof (cases rule: scan_once_Suc_Inr)
    case (str t)
    then show ?thesis using scanstring_length [of cs "[]" t r] by simp
  next
    case obj0
    then show ?thesis using skip_ws_Cons_length [of cs _ r] by simp
  next
    case (obj d ds)
    have "length r < length (d # ds) \<and> (json_doc (PDict []) \<longrightarrow> json_doc v)"
      using "3.IH"(1) [OF obj] .
    then show ?thesis using skip_ws_length [of cs] obj(3) by simp
  next
    case arr0
    then show ?thesis using skip_ws_Cons_length [of cs _ r] by simp
  next
    case (arr d ds)
    have "length r < length (d # ds) \<and> ((\<forall>x\<in>set []. json_doc x) \<longrightarrow> json_doc v)"
      using "3.IH"(2) [OF arr] .
    then show ?thesis using skip_ws_length [of cs] arr(4) by simp
  next
    case atom
    then show ?thesis by auto
  qed
next
  case (4 s acc)
  then show ?case by simp
next
  case (5 n s acc)
  from "5.prems" show ?case
  proof (rule array_items_Suc_Inr)
    fix x y d ds
    assume so: "scan_once n s = Inr (x, y)" and sk: "skip_ws y = d # ds"
      and alt: "d = CHR '']'' \<and> v = PList (acc @ [x]) \<and> r = ds
         \<or> d \<noteq> CHR '']'' \<and> d = CHR '','' \<and> array_items n (skip_ws ds) (acc @ [x]) = Inr (v, r)"
    have x: "length y < length s" "json_doc x" using "5.IH"(1) [OF so] by simp_all
    have ds: "length ds < length y" by (rule skip_ws_Cons_length [OF sk])
    from alt show ?thesis
    proof
      assume "d = CHR '']'' \<and> v = PList (acc @ [x]) \<and> r = ds"
      then show ?thesis using x ds by auto
    next
      assume a: "d \<noteq> CHR '']'' \<and> d = CHR '','' \<and> array_items n (skip_ws ds) (acc @ [x]) = Inr (v, r)"
      have "length r < length (skip_ws ds) \<and> ((\<forall>x\<in>set (acc @ [x]). json_doc x) \<longrightarrow> json_doc v)"
        using "5.IH"(2) [OF so refl sk] a by blast
      then show ?thesis using x ds skip_ws_length [of ds] by auto
    qed
  qed
next
  case (6 s acc)
  then show ?case by simp
next
  case (7 n s acc)
  from "7.prems" show ?case
  proof (rule object_members_Suc_Inr)
    fix s1 k y cs x y2 d ds
    assume s: "s = CHR 0x22 # s1" and ss: "scanstring s1 [] = Inr (k, y)"
      and sk: "skip_ws y = CHR '':'' # cs" and so: "scan_once n (skip_ws cs) = Inr (x, y2)"
      and sk2: "skip_ws y2 = d # ds"
      and alt: "d = CHR ''}'' \<and> v = PDict (dict_set (KStr k) x acc) \<and> r = ds
         \<or> d \<noteq> CHR ''}'' \<and> d = CHR '',''
           \<and> object_members n (skip_ws ds) (dict_set (KStr k) x acc) = Inr (v, r)"
    have y: "length y < length s1" by (rule scanstring_length [OF ss])
    have cs: "length cs < length y" by (rule skip_ws_Cons_length [OF sk])
    have nq: "\<not> CHR 0x22 \<noteq> CHR 0x22" and nc: "\<not> CHR '':'' \<noteq> CHR '':''" by simp_all
    have x: "length y2 < length (skip_ws cs) \<and> json_doc x"
      by (rule "7.IH"(1) [OF s nq ss refl sk nc so])
    have ds: "length ds < length y2" by (rule skip_ws_Cons_length [OF sk2])
    have chain: "length ds < length s"
      using s y cs x ds skip_ws_length [of cs] by simp
    have step: "json_doc (PDict acc) \<Longrightarrow> json_doc (PDict (dict_set (KStr k) x acc))"
      using dict_set_json_doc [of acc x k] x by blast
    from alt show ?thesis
    proof
      assume a: "d = CHR ''}'' \<and> v = PDict (dict_set (KStr k) x acc) \<and> r = ds"
      then have "r = ds" and "v = PDict (dict_set (KStr k) x acc)" by blast+
      then show ?thesis using chain step by blast
    next
      assume a: "d \<noteq> CHR ''}'' \<and> d = CHR '',''
           \<and> object_members n (skip_ws ds) (dict_set (KStr k) x acc) = Inr (v, r)"
      then have dn: "d \<noteq> CHR ''}''" and dc: "d = CHR '',''"
        and om: "object_members n (skip_ws ds) (dict_set (KStr k) x acc) = Inr (v, r)"
        by blast+
      have ih: "length r < length (skip_ws ds)
          \<and> (json_doc (PDict (dict_set (KStr k) x acc)) \<longrightarrow> json_doc v)"
        by (rule "7.IH"(2) [OF s nq ss refl sk nc so refl sk2 dn dc om])
      then have "length r < length s"
        using chain skip_ws_length [of ds] by linarith
      then show ?thesis using ih step by blast
    qed
  qed
qed

lemma loads_json_doc: "loads s = Inr v \<Longrightarrow> json_doc v"
proof -
  assume a: "loads s = Inr v"
  then obtain r where "scan_once (Suc (2 * length s)) (skip_ws s) = Inr (v, r)"
    unfolding loads_def
    by (cases "scan_once (Suc (2 * length s)) (skip_ws s)") (auto split: if_splits)
  then show ?thesis using scan_result(1) by blast
qed

lemma scanstring_error: "scanstring s acc = Inl e \<Longrightarrow> e = JSONDecodeError"
proof (induction s acc rule: scanstring.induct)
  case (1 acc)
  then show ?case by simp
next
  case (2 c cs acc)
  show ?case
  proof (cases "c = CHR 0x22")
    case True
    with "2.prems" show ?thesis by simp
  next
    case nq: False
    show ?thesis
    proof (cases "c = CHR 0x5C")
      case False
      show ?thesis
      proof (cases "(of_char c :: nat) < 32")
        case True
        with nq False "2.prems" show ?thesis by simp
      next
        case nc: False
        with nq \<open>c \<noteq> CHR 0x5C\<close> "2.prems" have "scanstring cs (acc @ [c]) = Inl e" by simp
        then show ?thesis by (rule "2.IH"(3) [OF nq \<open>c \<noteq> CHR 0x5C\<close> nc])
      qed
    next
      case True
      show ?thesis
      proof (cases cs)
        case Nil
        with nq True "2.prems" show ?thesis by simp
      next
        case (Cons x es)
        show ?thesis
        proof (cases "x = CHR ''u''")
          case False
          show ?thesis
          proof (cases "unescape x")
            case None
            with nq True Cons False "2.prems" show ?thesis by simp
          next
            case (Some ch)
            with nq True Cons False "2.prems" have "scanstring es (acc @ [ch]) = Inl e" by simp
            then show ?thesis by (rule "2.IH"(2) [OF nq True Cons False Some])
          qed
        next
          case u: True
          show ?thesis
          proof (cases "\<exists>h1 h2 h3 h4 rest. es = h1 # h2 # h3 # h4 # rest")
            case False
            with nq True Cons u "2.prems" show ?thesis
              by (auto split: list.splits)
          next
            case True
            then obtain h1 h2 h3 h4 rest where es: "es = h1 # h2 # h3 # h4 # rest" by blast
            show ?thesis
            proof (cases "hex4 h1 h2 h3 h4")
              case None
              with nq \<open>c = CHR 0x5C\<close> Cons u es "2.prems" show ?thesis by simp
            next
              case (Some m)
              show ?thesis
              proof (cases "m < 256")
                case False
                with nq \<open>c = CHR 0x5C\<close> Cons u es Some "2.prems" show ?thesis by simp
              next
                case True
                with nq \<open>c = CHR 0x5C\<close> Cons u es Some "2.prems"
                have "scanstring rest (acc @ [char_of m]) = Inl e" by simp
                then show ?thesis
                  by (rule "2.IH"(1) [OF nq \<open>c = CHR 0x5C\<close> Cons u es refl refl refl Some True])
              qed
            qed
          qed
        qed
      qed
    qed
  qed
qed

lemma scan_number_error: "scan_number s = Inl e \<Longrightarrow> e = JSONDecodeError \<or> e = ValueError"
  by (auto simp: scan_number_def split: list.splits option.splits if_splits)

lemma scan_error:
  "scan_once n s = Inl e \<Longrightarrow> 2 * length s < n \<Longrightarrow> e = JSONDecodeError \<or> e = ValueError"
  "array_items n s xs = Inl e \<Longrightarrow> 2 * length s + 1 < n \<Longrightarrow> e = JSONDecodeError \<or> e = ValueError"
  "object_members n s kvs = Inl e \<Longrightarrow> 2 * length s + 1 < n \<Longrightarrow> e = JSONDecodeError \<or> e = ValueError"
proof (induction n s and n s xs and n s kvs arbitrary: e and e and e
    rule: scan_once_array_items_object_members.induct)
  case (1 s)
  then show ?case by simp
next
  case (2 n)
  then show ?case by simp
next
  case (3 n c cs)
  note fuel = "3.prems"(2)
  show ?case
  proof (cases "c = CHR 0x22")
    case True
    with "3.prems"(1) have "scanstring cs [] = Inl e"
      by (cases "scanstring cs []") auto
    then show ?thesis using scanstring_error by blast
  next
    case nq: False
    show ?thesis
    proof (cases "c = CHR ''{''")
      case True
      show ?thesis
      proof (cases "skip_ws cs")
        case Nil
        with nq True "3.prems"(1) show ?thesis by simp
      next
        case (Cons d ds)
        have len: "2 * length (d # ds) + 1 < n"
          using skip_ws_length [of cs] Cons fuel by simp
        show ?thesis
        proof (cases "d = CHR ''}''")
          case True
          with nq \<open>c = CHR ''{''\<close> Cons "3.prems"(1) show ?thesis by simp
        next
          case nd: False
          show ?thesis
          proof (cases "d = CHR 0x22")
            case False
            with nq \<open>c = CHR ''{''\<close> Cons nd "3.prems"(1) show ?thesis by simp
          next
            case True
            with nq \<open>c = CHR ''{''\<close> Cons nd "3.prems"(1)
            have "object_members n (d # ds) [] = Inl e" by simp
            then show ?thesis
              by (rule "3.IH"(1) [OF nq \<open>c = CHR ''{''\<close> Cons nd True _ len])
          qed
        qed
      qed
    next
      case nb: False
      show ?thesis
      proof (cases "c = CHR ''[''")
        case True
        show ?thesis
        proof (cases "skip_ws cs")
          case Nil
          with nq nb True "3.prems"(1) show ?thesis by simp
        next
          case (Cons d ds)
          have len: "2 * length (d # ds) + 1 < n"
            using skip_ws_length [of cs] Cons fuel by simp
          show ?thesis
          proof (cases "d = CHR '']''")
            case True
            with nq nb \<open>c = CHR ''[''\<close> Cons "3.prems"(1) show ?thesis by simp
          next
            case nd: False
            with nq nb \<open>c = CHR ''[''\<close> Cons "3.prems"(1)
            have "array_items n (d # ds) [] = Inl e" by simp
            then show ?thesis
              by (rule "3.IH"(2) [OF nq nb \<open>c = CHR ''[''\<close> Cons nd _ len])
          qed
        qed
      next
        case na: False
        have rest: "scan_once (Suc n) (c # cs)
            = (if starts_with ''null'' (c # cs) then Inr (PNone, drop 4 (c # cs))
               else if starts_with ''true'' (c # cs) then Inr (PBool True, drop 4 (c # cs))
               else if starts_with ''false'' (c # cs) then Inr (PBool False, drop 5 (c # cs))
               else scan_number (c # cs))"
          using nq nb na by simp
        have "scan_number (c # cs) = Inl e"
          using "3.prems"(1) unfolding rest by (simp split: if_splits)
        then show ?thesis by (rule scan_number_error)
      qed
    qed
  qed
next
  case (4 s acc)
  then show ?case by simp
next
  case (5 n s acc)
  have fuel1: "2 * length s < n" using "5.prems"(2) by simp
  show ?case
  proof (cases "scan_once n s")
    case (Inl e1)
    with "5.prems"(1) have "e1 = e" by simp
    with Inl show ?thesis using "5.IH"(1) [OF _ fuel1] by simp
  next
    case (Inr b)
    obtain x y where b: "b = (x, y)" by (cases b)
    have so: "scan_once n s = Inr (x, y)" using Inr b by simp
    have y: "length y < length s" using scan_result(1) [OF so] by simp
    show ?thesis
    proof (cases "skip_ws y")
      case Nil
      with so "5.prems"(1) show ?thesis by simp
    next
      case (Cons d ds)
      have ds: "length ds < length y" by (rule skip_ws_Cons_length [OF Cons])
      have len: "2 * length (skip_ws ds) + 1 < n"
        using y ds skip_ws_length [of ds] fuel1 by simp
      show ?thesis
      proof (cases "d = CHR '']''")
        case True
        with so Cons "5.prems"(1) show ?thesis by simp
      next
        case nd: False
        show ?thesis
        proof (cases "d = CHR '',''")
          case False
          with so Cons nd "5.prems"(1) show ?thesis by simp
        next
          case True
          with so Cons nd "5.prems"(1)
          have "array_items n (skip_ws ds) (acc @ [x]) = Inl e" by simp
          then show ?thesis
            by (rule "5.IH"(2) [OF so refl Cons nd True _ len])
        qed
      qed
    qed
  qed
next
  case (6 s acc)
  then show ?case by simp
next
  case (7 n s acc)
  note fuel = "7.prems"(2)
  have nq: "\<not> CHR 0x22 \<noteq> CHR 0x22" and nc: "\<not> CHR '':'' \<noteq> CHR '':''" by simp_all
  show ?case
  proof (cases s)
    case Nil
    with "7.prems"(1) show ?thesis by simp
  next
    case (Cons q s1)
    show ?thesis
    proof (cases "q = CHR 0x22")
      case False
      with Cons "7.prems"(1) show ?thesis by simp
    next
      case True
      note s = Cons [unfolded True]
      show ?thesis
      proof (cases "scanstring s1 []")
        case (Inl e1)
        with s "7.prems"(1) have "e1 = e" by simp
        with Inl show ?thesis using scanstring_error by blast
      next
        case (Inr b)
        obtain k y where b: "b = (k, y)" by (cases b)
        have ss: "scanstring s1 [] = Inr (k, y)" using Inr b by simp
        have y: "length y < length s1" by (rule scanstring_length [OF ss])
        show ?thesis
        proof (cases "skip_ws y")
          case Nil
          with s ss "7.prems"(1) show ?thesis by simp
        next
          case (Cons c cs)
          have cs: "length cs < length y" by (rule skip_ws_Cons_length [OF Cons])
          show ?thesis
          proof (cases "c = CHR '':''")
            case False
            with s ss Cons "7.prems"(1) show ?thesis by simp
          next
            case True
            note sk = Cons [unfolded True]
            have len1: "2 * length (skip_ws cs) < n"
              using s y cs skip_ws_length [of cs] fuel by simp
            show ?thesis
            proof (cases "scan_once n (skip_ws cs)")
              case (Inl e1)
              with s ss sk "7.prems"(1) have "e1 = e" by simp
              with Inl show ?thesis
                using "7.IH"(1) [OF s nq ss refl sk nc _ len1] by simp
            next
              case (Inr b2)
              obtain x y2 where b2: "b2 = (x, y2)" by (cases b2)
              have so: "scan_once n (skip_ws cs) = Inr (x, y2)" using Inr b2 by simp
              have y2: "length y2 < length (skip_ws cs)" using scan_result(1) [OF so] by simp
              show ?thesis
              proof (cases "skip_ws y2")
                case Nil
                with s ss sk so "7.prems"(1) show ?thesis by simp
              next
                case (Cons d ds)
                have ds: "length ds < length y2" by (rule skip_ws_Cons_length [OF Cons])
                have len2: "2 * length (skip_ws ds) + 1 < n"
                  using y2 ds skip_ws_length [of ds] len1 by simp
                show ?thesis
                proof (cases "d = CHR ''}''")
                  case True
                  with s ss sk so Cons "7.prems"(1) show ?thesis by simp
                next
                  case nd: False
                  show ?thesis
                  proof (cases "d = CHR '',''")
                    case False
                    with s ss sk so Cons nd "7.prems"(1) show ?thesis by simp
                  next
                    case True
                    with s ss sk so Cons nd "7.prems"(1)
                    have "object_members n (skip_ws ds) (dict_set (KStr k) x acc) = Inl e"
                      by simp
                    then show ?thesis
                      by (rule "7.IH"(2) [OF s nq ss refl sk nc so refl Cons nd True _ len2])
                  qed
                qed
              qed
            qed
          qed
        qed
      qed
    qed
  qed
qed

lemma loads_error: "loads s = Inl e \<Longrightarrow> e = JSONDecodeError \<or> e = ValueError"
proof -
  assume a: "loads s = Inl e"
  have fuel: "2 * length (skip_ws s) < Suc (2 * length s)"
    using skip_ws_length [of s] by simp
  show ?thesis
  proof (cases "scan_once (Suc (2 * length s)) (skip_ws s)")
    case (Inl e1)
    with a have "e1 = e" by (simp add: loads_def del: scan_once.simps)
    with Inl show ?thesis using scan_error(1) [OF _ fuel] by blast
  next
    case (Inr b)
    with a show ?thesis
      by (cases b) (simp add: loads_def del: scan_once.simps split: if_splits)
  qed
qed

section \<open>\<open>loads\<close> reads back what \<open>encode\<close> writes\<close>

subsection \<open>Numbers\<close>

lemma delim_simps [simp]:
  "delim []" "delim (CHR '','' # t)" "delim (CHR '']'' # t)" "delim (CHR ''}'' # t)"
  by (simp_all add: delim_def)



lemma delim_skip_ws: "delim r \<Longrightarrow> skip_ws r = r"
  by (cases r) (auto simp: delim_def skip_ws_def json_ws_def)









lemma char_of_nat_eq: "(char_of (n::nat) = c) = (n mod 256 = of_char c)"
  by (simp add: char_of_eq_iff take_bit_eq_mod)





subsection \<open>Strings\<close>

lemma char_of_of_char_nat: "(of_char c :: nat) = k \<Longrightarrow> c = char_of k"
  by (metis char_of_char)

lemma of_char_less_256: "(of_char c :: nat) < 256"
proof -
  have "(of_char c :: nat) mod 256 < 256" by simp
  then show ?thesis by (simp only: of_char_mod_256)
qed

lemma hex_val_hex_char: "k < 16 \<Longrightarrow> hex_val (hex_char k) = Some k"
  by (auto simp: hex_val_def hex_char_def Let_def)

lemma hex4_byte:
  assumes "n < 256"
  shows "hex4 (CHR ''0'') (CHR ''0'') (hex_char (n div 16)) (hex_char (n mod 16)) = Some n"
proof -
  have a: "n div 16 < 16" using assms by simp
  have b: "n mod 16 < 16" by simp
  have z: "hex_val (CHR ''0'') = Some 0" by (simp add: hex_val_def)
  show ?thesis
    by (simp add: hex4_def z hex_val_hex_char [OF a] hex_val_hex_char [OF b])
qed

lemma scanstring_plain:
  assumes "c \<noteq> CHR 0x22" and "c \<noteq> CHR 0x5C" and "32 \<le> (of_char c :: nat)"
  shows "scanstring (c # rest) acc = scanstring rest (acc @ [c])"
  using assms by simp

lemma scanstring_short:
  assumes "unescape e = Some c" and "e \<noteq> CHR ''u''"
  shows "scanstring (CHR 0x5C # e # rest) acc = scanstring rest (acc @ [c])"
  using assms by simp

lemma scanstring_u:
  assumes "(of_char c :: nat) = n"
  shows "scanstring (CHR 0x5C # CHR ''u'' # CHR ''0'' # CHR ''0'' # hex_char (n div 16) # hex_char (n mod 16) # rest) acc
           = scanstring rest (acc @ [c])"
proof -
  have n: "n < 256" using assms of_char_less_256 [of c] by simp
  have c: "char_of n = c" using assms by auto
  show ?thesis
    by (simp add: hex4_byte [OF n] n c)
qed

lemma scanstring_escape_char:
  "scanstring (escape_char c @ rest) acc = scanstring rest (acc @ [c])"
proof -
  define n where "n = (of_char c :: nat)"
  consider (bs) "c = CHR 0x5C" | (dq) "c = CHR 0x22" | (b) "n = 8" | (f) "n = 12" | (nl) "n = 10"
    | (cr) "n = 13" | (tab) "n = 9"
    | (plain) "c \<noteq> CHR 0x5C" "c \<noteq> CHR 0x22" "32 \<le> n" "n \<le> 126"
    | (other) "c \<noteq> CHR 0x5C" "c \<noteq> CHR 0x22" "n \<noteq> 8" "n \<noteq> 12" "n \<noteq> 10" "n \<noteq> 13" "n \<noteq> 9"
        "\<not> (32 \<le> n \<and> n \<le> 126)"
    by blast
  then show ?thesis
  proof cases
    case bs
    then show ?thesis by (simp add: escape_char_def unescape_def)
  next
    case dq
    then show ?thesis by (simp add: escape_char_def unescape_def)
  next
    case b
    then have c: "c = CHR 0x08" using char_of_of_char_nat [of c 8] by (simp add: n_def char_of_nat_eq)
    show ?thesis unfolding c by (simp add: escape_char_def unescape_def)
  next
    case f
    then have c: "c = CHR 0x0C" using char_of_of_char_nat [of c 12] by (simp add: n_def char_of_nat_eq)
    show ?thesis unfolding c by (simp add: escape_char_def unescape_def)
  next
    case nl
    then have c: "c = CHR 0x0A" using char_of_of_char_nat [of c 10] by (simp add: n_def char_of_nat_eq)
    show ?thesis unfolding c by (simp add: escape_char_def unescape_def)
  next
    case cr
    then have c: "c = CHR 0x0D" using char_of_of_char_nat [of c 13] by (simp add: n_def char_of_nat_eq)
    show ?thesis unfolding c by (simp add: escape_char_def unescape_def)
  next
    case tab
    then have c: "c = CHR 0x09" using char_of_of_char_nat [of c 9] by (simp add: n_def char_of_nat_eq)
    show ?thesis unfolding c by (simp add: escape_char_def unescape_def)
  next
    case plain
    then have e: "escape_char c = [c]"
      by (auto simp: escape_char_def Let_def n_def)
    show ?thesis
      using scanstring_plain [of c rest acc] plain by (simp add: e n_def)
  next
    case other
    then have e: "escape_char c = [CHR 0x5C, CHR ''u'', CHR ''0'', CHR ''0'', hex_char (n div 16), hex_char (n mod 16)]"
      by (simp add: escape_char_def Let_def n_def)
    show ?thesis
      using scanstring_u [of c n rest acc] by (simp add: e n_def)
  qed
qed

lemma scanstring_body:
  "scanstring (concat (map escape_char s) @ CHR 0x22 # rest) acc = Inr (acc @ s, rest)"
proof (induction s arbitrary: acc)
  case Nil
  show ?case by simp
next
  case (Cons c s)
  have "scanstring (concat (map escape_char (c # s)) @ CHR 0x22 # rest) acc
      = scanstring (escape_char c @ (concat (map escape_char s) @ CHR 0x22 # rest)) acc"
    by simp
  also have "\<dots> = scanstring (concat (map escape_char s) @ CHR 0x22 # rest) (acc @ [c])"
    by (rule scanstring_escape_char)
  also have "\<dots> = Inr ((acc @ [c]) @ s, rest)"
    by (rule Cons.IH)
  finally show ?case by simp
qed

lemma scanstring_encode_str:
  "encode_str s @ rest = CHR 0x22 # t \<Longrightarrow> scanstring t [] = Inr (s, rest)"
  using scanstring_body [of s rest "[]"] by (simp add: encode_str_def)

subsection \<open>Arrays, objects and values\<close>





















section \<open>The device state store\<close>

text \<open>
  C6: \<^verbatim>\<open>loaded\<close> is true exactly when the state and info dictionaries and the effects
  and palettes lists are all non-empty, and false as soon as one of them is empty.
\<close>

theorem loaded_iff_all_nonempty:
  "loaded \<lparr>ip_addr = a, state = PDict s, info = PDict i, effects = PList es, palettes = PList ps\<rparr>
     = Inr (s \<noteq> [] \<and> i \<noteq> [] \<and> es \<noteq> [] \<and> ps \<noteq> [])"
  by (simp add: loaded_def)

theorem loaded_iff_all_nonempty_witness:
  "loaded dev2 = Inr True \<and> loaded (dev2\<lparr>effects := PList []\<rparr>) = Inr False
   \<and> (case fst (WLED_init ''10.10.10.125'' bare) of Inl e \<Rightarrow> Inl e | Inr w \<Rightarrow> loaded w) = Inr False"
  using loaded_iff_all_nonempty [of "''10.10.10.125''" st2
      "[(KStr ''ver'', PStr ''0.13''),
        (KStr ''leds'', PDict [(KStr ''count'', PInt 30), (KStr ''maxseg'', PInt 2)])]"
      "[PStr ''Solid'']" "[PStr ''Default'']"]
    loaded_iff_all_nonempty [of "''10.10.10.125''" st2
      "[(KStr ''ver'', PStr ''0.13''),
        (KStr ''leds'', PDict [(KStr ''count'', PInt 30), (KStr ''maxseg'', PInt 2)])]"
      "[]" "[PStr ''Default'']"]
    loaded_iff_all_nonempty [of "''10.10.10.125''" "[]" "[]" "[]" "[]"]
  by (simp add: dev2_def info2_def st2_def init_bare)

text \<open>
  C3: \<^verbatim>\<open>push_state(False)\<close> posts the state document as it is and leaves the object
  as it was, whatever the device answers. \<^verbatim>\<open>push_state(True)\<close> on a state dictionary
  posts the state with the flag \<^verbatim>\<open>"v": True\<close> set and, when the device answers with a
  text that parses, leaves the parsed document as the state.
\<close>

theorem push_state_effect:
  "push_state False w x
     = (case respond x (sent x) (POST (state_url w) (state w)) of Inl e \<Rightarrow> Inl e | Inr text \<Rightarrow> Inr (),
        w, x\<lparr>sent := sent x @ [POST (state_url w) (state w)]\<rparr>)
   \<and> (state w = PDict kvs
        \<and> respond x (sent x) (POST (state_url w) (PDict (dict_set (KStr ''v'') (PBool True) kvs))) = Inr text
        \<and> loads text = Inr d
      \<longrightarrow> push_state True w x
            = (Inr (), w\<lparr>state := d\<rparr>,
               x\<lparr>sent := sent x @ [POST (state_url w) (PDict (dict_set (KStr ''v'') (PBool True) kvs))]\<rparr>))"
  by (auto simp: push_state_def http_def split: sum.splits)

theorem push_state_effect_witness:
  "push_state False dev2 echo
     = (Inr (), dev2, echo\<lparr>sent := [POST ''http://10.10.10.125/json/state'' (state dev2)]\<rparr>)
   \<and> push_state True dev2 echo
     = (Inr (), dev2\<lparr>state := dev2_flagged\<rparr>,
        echo\<lparr>sent := [POST ''http://10.10.10.125/json/state'' dev2_flagged]\<rparr>)"
proof -
  have c: "respond echo (sent echo) (POST (state_url dev2) dev2_flagged) = Inr (encode dev2_flagged)"
    by (simp add: echo_def)
  have d: "respond echo (sent echo) (POST (state_url dev2) (state dev2)) = Inr (encode (state dev2))"
    by (simp add: echo_def)
  have e: "sent echo = []" by (simp add: echo_def)
  show ?thesis
    using push_state_effect [of dev2 echo st2 "encode dev2_flagged" dev2_flagged]
      dev2_state st2_flagged c d e loads_flagged
    by (simp add: dev2_url)
qed

lemma get_json_object: "get_json ep u y = (r, u', y') \<Longrightarrow> u' = u"
  by (auto simp: get_json_def split: prod.splits sum.splits)

lemma get_json_doc: "get_json ep w x = (Inr d, w', x') \<Longrightarrow> json_doc d"
  by (auto simp: get_json_def http_def loads_json_doc split: sum.splits)

text \<open>
  The state that a pull or a load leaves is a JSON document, the hypothesis of the round
  trip below.
\<close>

lemma load_state_file_doc:
  "load_state_file name w x = (Inr (), w', x') \<Longrightarrow> json_doc (state w')"
  by (auto simp: load_state_file_def loads_json_doc split: option.splits sum.splits)

lemma pull_state_doc:
  assumes "pull_state w x = (Inr (), w', x')"
  shows "json_doc (state w')"
proof (cases "get_json ''state'' w x")
  case (fields r1 w1 x1)
  note g1 = fields and o1 = get_json_object [OF fields]
  show ?thesis
  proof (cases r1)
    case (Inl e1)
    with assms g1 show ?thesis by (simp add: pull_state_def)
  next
    case (Inr d1)
    have d1: "json_doc d1" using g1 Inr get_json_doc by blast
    have "state w' = d1"
      using assms g1 o1 Inr
      by (auto simp: pull_state_def split: prod.splits sum.splits dest!: get_json_object)
    with d1 show ?thesis by simp
  qed
qed

text \<open>
  A dictionary with an integer key is not read back: the encoder writes the key as a
  string, and a string is what \<open>loads\<close> returns.
\<close>

lemma int_key_read_back_as_string:
  "dumps (PDict [(KInt 1, PNone)]) = Inr (encode (PDict [(KInt 1, PNone)]))
   \<and> loads (encode (PDict [(KInt 1, PNone)])) = Inr (PDict [(KStr ''1'', PNone)])"
  by code_simp



text \<open>
  The claim as the specification states it, for every state document, fails: setting
  the start of segment 0 on a state whose \<^verbatim>\<open>"seg"\<close> entry is a dictionary gives that
  dictionary the integer key 0; the state is saved without an exception and loaded without
  one, and the loaded state has the string key \<^verbatim>\<open>"0"\<close> in its place.
\<close>

lemma seg_keyed_text:
  "dumps (state seg_keyed) = Inr (encode (state seg_keyed))
   \<and> loads (encode (state seg_keyed)) = Inr (state seg_reloaded)"
  by code_simp

theorem save_load_int_key_counterexample:
  "start_set (SegmentItem segment_interface 0) (PInt 7) seg_dict = (Inr (), seg_keyed)
   \<and> fst (save_state_file ''comp2'' seg_keyed disk) = Inr ()
   \<and> load_state_file ''comp2'' seg_keyed (snd (snd (save_state_file ''comp2'' seg_keyed disk)))
       = (Inr (), seg_reloaded, snd (snd (save_state_file ''comp2'' seg_keyed disk)))
   \<and> state seg_reloaded \<noteq> state seg_keyed"
proof -
  have a: "start_set (SegmentItem segment_interface 0) (PInt 7) seg_dict = (Inr (), seg_keyed)"
    by (simp add: start_set_def verify_int8bit_def SegmentItem_def segment_interface_def
        state_setter_def seg_dict_def seg_keyed_def)
  have b: "write_error disk (state_file ''comp2'') = None" by (simp add: disk_def state_file_def)
  have c: "seg_keyed\<lparr>state := state seg_reloaded\<rparr> = seg_reloaded"
    by (simp add: seg_keyed_def seg_reloaded_def)
  have d: "state seg_reloaded \<noteq> state seg_keyed"
    by (simp add: seg_keyed_def seg_reloaded_def)
  show ?thesis
    using a b c d seg_keyed_text
    by (simp add: save_state_file_def load_state_file_def)
qed

subsection \<open>Failing calls\<close>

lemma pull_state_failed:
  assumes "pull_state w x = (Inl e, w', x')"
  shows "(fst (get_json ''state'' w x) = Inl e \<and> w' = w)
       \<or> (\<exists>d1 x1. get_json ''state'' w x = (Inr d1, w, x1)
             \<and> fst (get_json ''info'' (w\<lparr>state := d1\<rparr>) x1) = Inl e
             \<and> w' = w\<lparr>state := d1\<rparr>)
       \<or> (\<exists>d1 x1 d2 x2. get_json ''state'' w x = (Inr d1, w, x1)
             \<and> get_json ''info'' (w\<lparr>state := d1\<rparr>) x1 = (Inr d2, w\<lparr>state := d1\<rparr>, x2)
             \<and> fst (get_json ''eff'' (w\<lparr>state := d1, info := d2\<rparr>) x2) = Inl e
             \<and> w' = w\<lparr>state := d1, info := d2\<rparr>)
       \<or> (\<exists>d1 x1 d2 x2 d3 x3. get_json ''state'' w x = (Inr d1, w, x1)
             \<and> get_json ''info'' (w\<lparr>state := d1\<rparr>) x1 = (Inr d2, w\<lparr>state := d1\<rparr>, x2)
             \<and> get_json ''eff'' (w\<lparr>state := d1, info := d2\<rparr>) x2
                 = (Inr d3, w\<lparr>state := d1, info := d2\<rparr>, x3)
             \<and> fst (get_json ''pal'' (w\<lparr>state := d1, info := d2, effects := d3\<rparr>) x3) = Inl e
             \<and> w' = w\<lparr>state := d1, info := d2, effects := d3\<rparr>)"
proof (cases "get_json ''state'' w x")
  case (fields r1 w1 x1)
  note o1 = get_json_object [OF fields]
  show ?thesis
  proof (cases r1)
    case (Inl e1)
    with assms fields o1 have "fst (get_json ''state'' w x) = Inl e \<and> w' = w"
      by (simp add: pull_state_def)
    then show ?thesis by blast
  next
    case (Inr d1)
    have g1: "get_json ''state'' w x = (Inr d1, w, x1)" using fields o1 Inr by simp
    show ?thesis
    proof (cases "get_json ''info'' (w\<lparr>state := d1\<rparr>) x1")
      case (fields r2 w2 x2)
      note o2 = get_json_object [OF fields]
      show ?thesis
      proof (cases r2)
        case (Inl e2)
        with assms g1 fields o2
        have "fst (get_json ''info'' (w\<lparr>state := d1\<rparr>) x1) = Inl e \<and> w' = w\<lparr>state := d1\<rparr>"
          by (simp add: pull_state_def)
        with g1 show ?thesis by blast
      next
        case (Inr d2)
        have g2: "get_json ''info'' (w\<lparr>state := d1\<rparr>) x1 = (Inr d2, w\<lparr>state := d1\<rparr>, x2)"
          using fields o2 Inr by simp
        show ?thesis
        proof (cases "get_json ''eff'' (w\<lparr>state := d1, info := d2\<rparr>) x2")
          case (fields r3 w3 x3)
          note o3 = get_json_object [OF fields]
          show ?thesis
          proof (cases r3)
            case (Inl e3)
            with assms g1 g2 fields o3
            have "fst (get_json ''eff'' (w\<lparr>state := d1, info := d2\<rparr>) x2) = Inl e
                \<and> w' = w\<lparr>state := d1, info := d2\<rparr>"
              by (simp add: pull_state_def)
            with g1 g2 show ?thesis by blast
          next
            case (Inr d3)
            have g3: "get_json ''eff'' (w\<lparr>state := d1, info := d2\<rparr>) x2
                = (Inr d3, w\<lparr>state := d1, info := d2\<rparr>, x3)"
              using fields o3 Inr by simp
            show ?thesis
            proof (cases "get_json ''pal'' (w\<lparr>state := d1, info := d2, effects := d3\<rparr>) x3")
              case (fields r4 w4 x4)
              note o4 = get_json_object [OF fields]
              from assms g1 g2 g3 fields o4
              have "fst (get_json ''pal'' (w\<lparr>state := d1, info := d2, effects := d3\<rparr>) x3) = Inl e
                  \<and> w' = w\<lparr>state := d1, info := d2, effects := d3\<rparr>"
                by (cases r4) (simp_all add: pull_state_def)
              with g1 g2 g3 show ?thesis by blast
            qed
          qed
        qed
      qed
    qed
  qed
qed

lemma push_state_failed:
  "push_state False w x = (Inl e, w', x') \<Longrightarrow> w' = w"
  "push_state True w x = (Inl e, w', x') \<Longrightarrow>
     w' = w \<or> (\<exists>kvs. state w = PDict kvs \<and> w' = w\<lparr>state := PDict (dict_set (KStr ''v'') (PBool True) kvs)\<rparr>)"
  by (cases "state w"; auto simp: push_state_def http_def split: sum.splits)+

text \<open>
  C1, as the code has it. \<^verbatim>\<open>pull_state\<close> fetches the state, the info, the effects and
  the palettes in this order and assigns each document as soon as it is fetched. When it
  raises, it is at one of the four fetches: the documents fetched before that one have
  been replaced by what was fetched, and the document of the failing fetch and those
  after it are as they were (the object is the old one with the earlier fields updated
  and nothing else). In particular only a failure of the first fetch leaves the object
  as it was. A failing \<^verbatim>\<open>push_state(False)\<close> leaves the object as it was. A failing
  \<^verbatim>\<open>push_state(True)\<close> leaves the object as it was or with the flag \<^verbatim>\<open>"v": True\<close> set
  in its state dictionary.
\<close>

theorem failed_pull_push_effect:
  "(pull_state w x = (Inl e, w', x') \<longrightarrow>
      (fst (get_json ''state'' w x) = Inl e \<and> w' = w)
    \<or> (\<exists>d1 x1. get_json ''state'' w x = (Inr d1, w, x1)
          \<and> fst (get_json ''info'' (w\<lparr>state := d1\<rparr>) x1) = Inl e
          \<and> w' = w\<lparr>state := d1\<rparr>)
    \<or> (\<exists>d1 x1 d2 x2. get_json ''state'' w x = (Inr d1, w, x1)
          \<and> get_json ''info'' (w\<lparr>state := d1\<rparr>) x1 = (Inr d2, w\<lparr>state := d1\<rparr>, x2)
          \<and> fst (get_json ''eff'' (w\<lparr>state := d1, info := d2\<rparr>) x2) = Inl e
          \<and> w' = w\<lparr>state := d1, info := d2\<rparr>)
    \<or> (\<exists>d1 x1 d2 x2 d3 x3. get_json ''state'' w x = (Inr d1, w, x1)
          \<and> get_json ''info'' (w\<lparr>state := d1\<rparr>) x1 = (Inr d2, w\<lparr>state := d1\<rparr>, x2)
          \<and> get_json ''eff'' (w\<lparr>state := d1, info := d2\<rparr>) x2
              = (Inr d3, w\<lparr>state := d1, info := d2\<rparr>, x3)
          \<and> fst (get_json ''pal'' (w\<lparr>state := d1, info := d2, effects := d3\<rparr>) x3) = Inl e
          \<and> w' = w\<lparr>state := d1, info := d2, effects := d3\<rparr>))
   \<and> (push_state False w x = (Inl e, w', x') \<longrightarrow> w' = w)
   \<and> (push_state True w x = (Inl e, w', x') \<longrightarrow>
        w' = w \<or> (\<exists>kvs. state w = PDict kvs \<and> w' = w\<lparr>state := PDict (dict_set (KStr ''v'') (PBool True) kvs)\<rparr>))"
  using pull_state_failed [of w x e w' x'] push_state_failed [of w x e w' x']
  by blast

theorem failed_pull_push_effect_witness:
  "pull_state dev2 flaky
     = (Inl ConnectionError, dev2\<lparr>state := PDict []\<rparr>,
        flaky\<lparr>sent := [GET ''http://10.10.10.125/json/state'', GET ''http://10.10.10.125/json/info'']\<rparr>)
   \<and> ((fst (get_json ''state'' dev2 flaky) = Inl ConnectionError \<and> dev2\<lparr>state := PDict []\<rparr> = dev2)
      \<or> (\<exists>d1 x1. get_json ''state'' dev2 flaky = (Inr d1, dev2, x1)
            \<and> fst (get_json ''info'' (dev2\<lparr>state := d1\<rparr>) x1) = Inl ConnectionError
            \<and> dev2\<lparr>state := PDict []\<rparr> = dev2\<lparr>state := d1\<rparr>)
      \<or> (\<exists>d1 x1 d2 x2. get_json ''state'' dev2 flaky = (Inr d1, dev2, x1)
            \<and> get_json ''info'' (dev2\<lparr>state := d1\<rparr>) x1 = (Inr d2, dev2\<lparr>state := d1\<rparr>, x2)
            \<and> fst (get_json ''eff'' (dev2\<lparr>state := d1, info := d2\<rparr>) x2) = Inl ConnectionError
            \<and> dev2\<lparr>state := PDict []\<rparr> = dev2\<lparr>state := d1, info := d2\<rparr>)
      \<or> (\<exists>d1 x1 d2 x2 d3 x3. get_json ''state'' dev2 flaky = (Inr d1, dev2, x1)
            \<and> get_json ''info'' (dev2\<lparr>state := d1\<rparr>) x1 = (Inr d2, dev2\<lparr>state := d1\<rparr>, x2)
            \<and> get_json ''eff'' (dev2\<lparr>state := d1, info := d2\<rparr>) x2
                = (Inr d3, dev2\<lparr>state := d1, info := d2\<rparr>, x3)
            \<and> fst (get_json ''pal'' (dev2\<lparr>state := d1, info := d2, effects := d3\<rparr>) x3)
                = Inl ConnectionError
            \<and> dev2\<lparr>state := PDict []\<rparr> = dev2\<lparr>state := d1, info := d2, effects := d3\<rparr>))
   \<and> info (dev2\<lparr>state := PDict []\<rparr>) = info dev2
   \<and> effects (dev2\<lparr>state := PDict []\<rparr>) = effects dev2
   \<and> palettes (dev2\<lparr>state := PDict []\<rparr>) = palettes dev2
   \<and> pull_state dev2 echo
       = (Inl ConnectionError, dev2, echo\<lparr>sent := [GET ''http://10.10.10.125/json/state'']\<rparr>)
   \<and> push_state False dev2 flaky
       = (Inl ConnectionError, dev2, flaky\<lparr>sent := [POST ''http://10.10.10.125/json/state'' (state dev2)]\<rparr>)
   \<and> push_state True dev2 flaky
       = (Inl ConnectionError, dev2\<lparr>state := dev2_flagged\<rparr>,
          flaky\<lparr>sent := [POST ''http://10.10.10.125/json/state'' dev2_flagged]\<rparr>)
   \<and> (dev2\<lparr>state := dev2_flagged\<rparr> = dev2
        \<or> (\<exists>kvs. state dev2 = PDict kvs
              \<and> dev2\<lparr>state := dev2_flagged\<rparr> = dev2\<lparr>state := PDict (dict_set (KStr ''v'') (PBool True) kvs)\<rparr>))"
proof -
  have b: "dev2\<lparr>state := dev2_flagged\<rparr> = dev2
        \<or> (\<exists>kvs. state dev2 = PDict kvs
              \<and> dev2\<lparr>state := dev2_flagged\<rparr> = dev2\<lparr>state := PDict (dict_set (KStr ''v'') (PBool True) kvs)\<rparr>)"
    using failed_pull_push_effect [of dev2 flaky ConnectionError "dev2\<lparr>state := dev2_flagged\<rparr>"
        "flaky\<lparr>sent := [POST ''http://10.10.10.125/json/state'' dev2_flagged]\<rparr>"] push_flaky
    by blast
  have c: "dev2 = dev2"
    using failed_pull_push_effect [of dev2 flaky ConnectionError dev2
        "flaky\<lparr>sent := [POST ''http://10.10.10.125/json/state'' (state dev2)]\<rparr>"] push_false_flaky
    by blast
  have d: "(fst (get_json ''state'' dev2 flaky) = Inl ConnectionError \<and> dev2\<lparr>state := PDict []\<rparr> = dev2)
      \<or> (\<exists>d1 x1. get_json ''state'' dev2 flaky = (Inr d1, dev2, x1)
            \<and> fst (get_json ''info'' (dev2\<lparr>state := d1\<rparr>) x1) = Inl ConnectionError
            \<and> dev2\<lparr>state := PDict []\<rparr> = dev2\<lparr>state := d1\<rparr>)
      \<or> (\<exists>d1 x1 d2 x2. get_json ''state'' dev2 flaky = (Inr d1, dev2, x1)
            \<and> get_json ''info'' (dev2\<lparr>state := d1\<rparr>) x1 = (Inr d2, dev2\<lparr>state := d1\<rparr>, x2)
            \<and> fst (get_json ''eff'' (dev2\<lparr>state := d1, info := d2\<rparr>) x2) = Inl ConnectionError
            \<and> dev2\<lparr>state := PDict []\<rparr> = dev2\<lparr>state := d1, info := d2\<rparr>)
      \<or> (\<exists>d1 x1 d2 x2 d3 x3. get_json ''state'' dev2 flaky = (Inr d1, dev2, x1)
            \<and> get_json ''info'' (dev2\<lparr>state := d1\<rparr>) x1 = (Inr d2, dev2\<lparr>state := d1\<rparr>, x2)
            \<and> get_json ''eff'' (dev2\<lparr>state := d1, info := d2\<rparr>) x2
                = (Inr d3, dev2\<lparr>state := d1, info := d2\<rparr>, x3)
            \<and> fst (get_json ''pal'' (dev2\<lparr>state := d1, info := d2, effects := d3\<rparr>) x3)
                = Inl ConnectionError
            \<and> dev2\<lparr>state := PDict []\<rparr> = dev2\<lparr>state := d1, info := d2, effects := d3\<rparr>)"
    using failed_pull_push_effect [of dev2 flaky ConnectionError "dev2\<lparr>state := PDict []\<rparr>"
        "flaky\<lparr>sent := [GET ''http://10.10.10.125/json/state'', GET ''http://10.10.10.125/json/info'']\<rparr>"]
      pull_flaky
    by blast
  have e: "info (dev2\<lparr>state := PDict []\<rparr>) = info dev2
      \<and> effects (dev2\<lparr>state := PDict []\<rparr>) = effects dev2
      \<and> palettes (dev2\<lparr>state := PDict []\<rparr>) = palettes dev2"
    by simp
  show ?thesis
    using b c d e pull_flaky pull_echo push_false_flaky push_flaky by blast
qed

text \<open>
  The claim as the specification states it fails: in the world \<open>flaky\<close> the pull raises
  at its second fetch and the state document has already been replaced, and the failing
  push with a response expected leaves the flag in the state document.
\<close>

theorem failed_pull_push_counterexample:
  "fst (pull_state dev2 flaky) = Inl ConnectionError
   \<and> state (fst (snd (pull_state dev2 flaky))) = PDict []
   \<and> state dev2 \<noteq> PDict []
   \<and> fst (push_state True dev2 flaky) = Inl ConnectionError
   \<and> state (fst (snd (push_state True dev2 flaky))) = dev2_flagged
   \<and> state dev2 \<noteq> dev2_flagged"
  by (simp add: pull_flaky push_flaky) (simp add: dev2_def dev2_flagged_def st2_def)

section \<open>The nightlight mode setter\<close>

lemma mode_names:
  "(map_of MODE_MAP s \<noteq> None) = (s \<in> {''instant'', ''fade'', ''color fade'', ''sunrise''})"
  by (simp add: MODE_MAP_def)

lemma nl_setter:
  assumes "state w = PDict kvs" and "map_of kvs (KStr ''nl'') = Some (PDict nl)"
  shows "setter nightlight_interface k v w
           = (Inr (), w\<lparr>state := PDict (dict_set (KStr ''nl'') (PDict (dict_set k v nl)) kvs)\<rparr>)"
  using assms by (simp add: nightlight_interface_def state_setter_def)

lemma mode_set_int:
  "mode_set P (PInt n) w
     = (if 0 \<le> n \<and> n \<le> 3 then setter P (KStr ''mode'') (PInt n) w else (Inl ValueError, w))"
  by (auto simp: mode_set_def verify_range_def)

lemma mode_set_name:
  "map_of MODE_MAP s = Some n \<Longrightarrow> mode_set P (PStr s) w = mode_set P (PInt n) w"
  by (simp add: mode_set_def)

lemma mode_set_other:
  "map_of MODE_MAP s = None \<Longrightarrow>
   mode_set P (PStr s) w
     = (case py_int_str s of Inl e \<Rightarrow> (Inl e, w) | Inr n \<Rightarrow> mode_set P (PInt n) w)"
  by (simp add: mode_set_def split: sum.splits)

lemma py_int_str_error: "py_int_str s = Inl e \<Longrightarrow> e = ValueError"
  by (auto simp: py_int_str_def split: list.splits if_splits option.splits)

text \<open>
  C4: on a state whose \<^verbatim>\<open>"nl"\<close> entry is a dictionary, the setter given \<^verbatim>\<open>"fade"\<close>
  stores 1 under \<^verbatim>\<open>"mode"\<close>; given the integer 4 it raises \<^verbatim>\<open>ValueError\<close> and the
  state is as before; given the integer 2 it stores 2; and a string that is not a mode
  name goes through \<^verbatim>\<open>int\<close> and the range check 0..3.
\<close>

theorem mode_set_examples:
  assumes "state w = PDict kvs" and "map_of kvs (KStr ''nl'') = Some (PDict nl)"
  shows "mode_set nightlight_interface (PStr ''fade'') w
           = (Inr (), w\<lparr>state := PDict (dict_set (KStr ''nl'') (PDict (dict_set (KStr ''mode'') (PInt 1) nl)) kvs)\<rparr>)
       \<and> mode_set nightlight_interface (PInt 4) w = (Inl ValueError, w)
       \<and> mode_set nightlight_interface (PInt 2) w
           = (Inr (), w\<lparr>state := PDict (dict_set (KStr ''nl'') (PDict (dict_set (KStr ''mode'') (PInt 2) nl)) kvs)\<rparr>)
       \<and> (map_of MODE_MAP s = None \<longrightarrow>
            mode_set nightlight_interface (PStr s) w
              = (case py_int_str s of
                   Inl e \<Rightarrow> (Inl e, w)
                 | Inr n \<Rightarrow>
                     if 0 \<le> n \<and> n \<le> 3
                     then (Inr (), w\<lparr>state := PDict (dict_set (KStr ''nl'') (PDict (dict_set (KStr ''mode'') (PInt n) nl)) kvs)\<rparr>)
                     else (Inl ValueError, w)))"
proof -
  have f: "map_of MODE_MAP ''fade'' = Some 1" by (simp add: MODE_MAP_def)
  show ?thesis
    using assms
    by (simp add: mode_set_name [OF f] mode_set_other mode_set_int nl_setter split: sum.splits)
qed

theorem mode_set_examples_witness:
  "mode_set nightlight_interface (PStr ''fade'') dev2 = (Inr (), with_mode 1)
   \<and> mode_set nightlight_interface (PInt 4) dev2 = (Inl ValueError, dev2)
   \<and> mode_set nightlight_interface (PInt 2) dev2 = (Inr (), with_mode 2)
   \<and> mode_set nightlight_interface (PStr '' 3'') dev2 = (Inr (), with_mode 3)
   \<and> mode_set nightlight_interface (PStr ''night'') dev2 = (Inl ValueError, dev2)"
proof -
  have n: "map_of MODE_MAP '' 3'' = None" "map_of MODE_MAP ''night'' = None"
    by (simp_all add: MODE_MAP_def)
  show ?thesis
    using mode_set_examples [OF dev2_state st2_nl, of "'' 3''"]
      mode_set_examples [OF dev2_state st2_nl, of "''night''"] n py_int_str_3 py_int_str_night
    by (simp add: with_mode_def st2_def nl2_def)
qed

text \<open>
  C10, as the code has it. On a state whose \<^verbatim>\<open>"nl"\<close> entry is a dictionary, the setter
  stores 0 for \<^verbatim>\<open>instant\<close>, 1 for \<^verbatim>\<open>fade\<close>, 2 for \<^verbatim>\<open>color fade\<close> (with a space) and 3
  for \<^verbatim>\<open>sunrise\<close>. Every other string goes to \<^verbatim>\<open>int\<close>: the setter raises
  \<^verbatim>\<open>ValueError\<close> and stores nothing unless the string is the literal of an integer from
  0 to 3, which it stores. \<^verbatim>\<open>colorFade\<close> is such a string, and the setter raises
  \<^verbatim>\<open>ValueError\<close> on it.
\<close>

theorem mode_set_symbolic_names:
  assumes "state w = PDict kvs" and "map_of kvs (KStr ''nl'') = Some (PDict nl)"
  shows "mode_set nightlight_interface (PStr ''instant'') w
           = (Inr (), w\<lparr>state := PDict (dict_set (KStr ''nl'') (PDict (dict_set (KStr ''mode'') (PInt 0) nl)) kvs)\<rparr>)
       \<and> mode_set nightlight_interface (PStr ''fade'') w
           = (Inr (), w\<lparr>state := PDict (dict_set (KStr ''nl'') (PDict (dict_set (KStr ''mode'') (PInt 1) nl)) kvs)\<rparr>)
       \<and> mode_set nightlight_interface (PStr ''color fade'') w
           = (Inr (), w\<lparr>state := PDict (dict_set (KStr ''nl'') (PDict (dict_set (KStr ''mode'') (PInt 2) nl)) kvs)\<rparr>)
       \<and> mode_set nightlight_interface (PStr ''sunrise'') w
           = (Inr (), w\<lparr>state := PDict (dict_set (KStr ''nl'') (PDict (dict_set (KStr ''mode'') (PInt 3) nl)) kvs)\<rparr>)
       \<and> mode_set nightlight_interface (PStr ''colorFade'') w = (Inl ValueError, w)
       \<and> (s \<notin> {''instant'', ''fade'', ''color fade'', ''sunrise''} \<longrightarrow>
            mode_set nightlight_interface (PStr s) w
              = (case py_int_str s of
                   Inl e \<Rightarrow> (Inl ValueError, w)
                 | Inr n \<Rightarrow>
                     if 0 \<le> n \<and> n \<le> 3
                     then (Inr (), w\<lparr>state := PDict (dict_set (KStr ''nl'') (PDict (dict_set (KStr ''mode'') (PInt n) nl)) kvs)\<rparr>)
                     else (Inl ValueError, w)))"
proof -
  have m: "map_of MODE_MAP ''instant'' = Some 0" "map_of MODE_MAP ''fade'' = Some 1"
    "map_of MODE_MAP ''color fade'' = Some 2" "map_of MODE_MAP ''sunrise'' = Some 3"
    by (simp_all add: MODE_MAP_def)
  have names: "mode_set nightlight_interface (PStr ''instant'') w
           = (Inr (), w\<lparr>state := PDict (dict_set (KStr ''nl'') (PDict (dict_set (KStr ''mode'') (PInt 0) nl)) kvs)\<rparr>)"
    "mode_set nightlight_interface (PStr ''fade'') w
           = (Inr (), w\<lparr>state := PDict (dict_set (KStr ''nl'') (PDict (dict_set (KStr ''mode'') (PInt 1) nl)) kvs)\<rparr>)"
    "mode_set nightlight_interface (PStr ''color fade'') w
           = (Inr (), w\<lparr>state := PDict (dict_set (KStr ''nl'') (PDict (dict_set (KStr ''mode'') (PInt 2) nl)) kvs)\<rparr>)"
    "mode_set nightlight_interface (PStr ''sunrise'') w
           = (Inr (), w\<lparr>state := PDict (dict_set (KStr ''nl'') (PDict (dict_set (KStr ''mode'') (PInt 3) nl)) kvs)\<rparr>)"
    by (simp_all add: mode_set_name [OF m(1)] mode_set_name [OF m(2)] mode_set_name [OF m(3)]
        mode_set_name [OF m(4)] mode_set_int nl_setter [OF assms])
  have b: "map_of MODE_MAP ''colorFade'' = None" by (simp add: MODE_MAP_def)
  have e: "mode_set nightlight_interface (PStr ''colorFade'') w = (Inl ValueError, w)"
    by (simp add: mode_set_other [OF b] py_int_str_colorFade)
  have c: "s \<notin> {''instant'', ''fade'', ''color fade'', ''sunrise''} \<Longrightarrow> map_of MODE_MAP s = None"
    using mode_names [of s] by simp
  have d: "s \<notin> {''instant'', ''fade'', ''color fade'', ''sunrise''} \<Longrightarrow>
        mode_set nightlight_interface (PStr s) w
          = (case py_int_str s of
               Inl e \<Rightarrow> (Inl ValueError, w)
             | Inr n \<Rightarrow>
                 if 0 \<le> n \<and> n \<le> 3
                 then (Inr (), w\<lparr>state := PDict (dict_set (KStr ''nl'') (PDict (dict_set (KStr ''mode'') (PInt n) nl)) kvs)\<rparr>)
                 else (Inl ValueError, w))"
    using py_int_str_error [of s]
    by (auto simp: mode_set_other [OF c] mode_set_int nl_setter [OF assms] split: sum.splits)
  show ?thesis
    using names e d by blast
qed

theorem mode_set_symbolic_names_witness:
  "mode_set nightlight_interface (PStr ''instant'') dev2 = (Inr (), with_mode 0)
   \<and> mode_set nightlight_interface (PStr ''fade'') dev2 = (Inr (), with_mode 1)
   \<and> mode_set nightlight_interface (PStr ''color fade'') dev2 = (Inr (), with_mode 2)
   \<and> mode_set nightlight_interface (PStr ''sunrise'') dev2 = (Inr (), with_mode 3)
   \<and> mode_set nightlight_interface (PStr ''colorFade'') dev2 = (Inl ValueError, dev2)
   \<and> ''night'' \<notin> {''instant'', ''fade'', ''color fade'', ''sunrise''}
   \<and> mode_set nightlight_interface (PStr ''night'') dev2 = (Inl ValueError, dev2)
   \<and> '' 3'' \<notin> {''instant'', ''fade'', ''color fade'', ''sunrise''}
   \<and> mode_set nightlight_interface (PStr '' 3'') dev2 = (Inr (), with_mode 3)"
  using mode_set_symbolic_names [OF dev2_state st2_nl, of "''night''"]
    mode_set_symbolic_names [OF dev2_state st2_nl, of "'' 3''"] py_int_str_night py_int_str_3
  by (simp add: with_mode_def st2_def nl2_def)

text \<open>
  The claim as the specification states it fails on the string \<^verbatim>\<open>"2"\<close>: it is not a
  mode name, and the setter stores 2.
\<close>

theorem mode_set_numeric_string_counterexample:
  "''2'' \<notin> {''instant'', ''fade'', ''color fade'', ''sunrise''}
   \<and> mode_set nightlight_interface (PStr ''2'') dev2 = (Inr (), with_mode 2)"
  by (simp add: mode_set_def MODE_MAP_def py_int_str_def py_strip_def py_isspace_def
      unsigned_literal_def is_digit_def digit_val_def max_str_digits_def verify_range_def
      nightlight_interface_def state_setter_def dev2_def with_mode_def st2_def nl2_def)

section \<open>Segments\<close>

text \<open>
  C2, as the code has it: with \<^verbatim>\<open>info["leds"]["maxseg"]\<close> the integer \<open>m\<close>, indexing
  the segment list with \<open>i\<close> returns a segment view bound to \<open>i\<close> exactly when \<open>i < m\<close>,
  and returns \<^verbatim>\<open>None\<close> without raising otherwise. There is no lower bound.
\<close>

theorem segment_getitem_upper_bound:
  assumes "info w = PDict kvs"
    and "map_of kvs (KStr ''leds'') = Some leds"
    and "subscript leds (KStr ''maxseg'') = Inr (PInt m)"
  shows "segment_getitem segment_interface i w
           = Inr (if i < m then Some (SegmentItem segment_interface i) else None)"
  using assms
  by (simp add: segment_getitem_def segment_interface_def info_getitem_def)

theorem segment_getitem_upper_bound_witness:
  "segment_getitem segment_interface 0 dev2 = Inr (Some (SegmentItem segment_interface 0))
   \<and> segment_getitem segment_interface 1 dev2 = Inr (Some (SegmentItem segment_interface 1))
   \<and> segment_getitem segment_interface 2 dev2 = Inr None"
proof -
  have a: "info dev2 = PDict [(KStr ''ver'', PStr ''0.13''),
      (KStr ''leds'', PDict [(KStr ''count'', PInt 30), (KStr ''maxseg'', PInt 2)])]"
    by (simp add: dev2_def info2_def)
  have b: "map_of [(KStr ''ver'', PStr ''0.13''),
      (KStr ''leds'', PDict [(KStr ''count'', PInt 30), (KStr ''maxseg'', PInt 2)])] (KStr ''leds'')
        = Some (PDict [(KStr ''count'', PInt 30), (KStr ''maxseg'', PInt 2)])"
    by simp
  have c: "subscript (PDict [(KStr ''count'', PInt 30), (KStr ''maxseg'', PInt 2)]) (KStr ''maxseg'')
        = Inr (PInt 2)"
    by simp
  show ?thesis
    using segment_getitem_upper_bound [OF a b c, of 0] segment_getitem_upper_bound [OF a b c, of 1]
      segment_getitem_upper_bound [OF a b c, of 2]
    by simp
qed

text \<open>
  The claim as the specification states it fails on a negative index: with
  \<^verbatim>\<open>maxseg\<close> 2, the index \<open>-1\<close> is not in the range from 0 and yields a view.
\<close>

theorem segment_getitem_negative_counterexample:
  "segment_getitem segment_interface (- 1) dev2 = Inr (Some (SegmentItem segment_interface (- 1)))
   \<and> \<not> (0 \<le> (- 1 :: int) \<and> (- 1 :: int) < 2)"
  by (simp add: segment_getitem_def segment_interface_def info_getitem_def dev2_def info2_def)

lemma seg_accessor:
  assumes "state w = PDict kvs" and "map_of kvs (KStr ''seg'') = Some (PList segs)"
    and "norm_index (length segs) i = Some j"
  shows "accessor segment_interface (KInt i) w = Inr (segs ! j)"
  using assms by (simp add: segment_interface_def state_accessor_def)

lemma seg_setter:
  assumes "state w = PDict kvs" and "map_of kvs (KStr ''seg'') = Some (PList segs)"
    and "norm_index (length segs) i = Some j"
  shows "setter segment_interface (KInt i) v w
           = (Inr (), w\<lparr>state := PDict (dict_set (KStr ''seg'') (PList (segs[j := v])) kvs)\<rparr>)"
  using assms by (simp add: segment_interface_def state_setter_def)

text \<open>
  C8: for a view bound to \<open>i\<close> on a state whose \<^verbatim>\<open>"seg"\<close> entry is a list in which \<open>i\<close>
  denotes position \<open>j\<close>, the getter of \<^verbatim>\<open>start\<close> reads the \<^verbatim>\<open>"start"\<close> item of the
  segment at \<open>j\<close>, and the setter checks the value with the 8-bit validator and puts the
  checked integer in the place of the whole segment at \<open>j\<close>.
\<close>

theorem segment_start_get_set:
  assumes "state w = PDict kvs" and "map_of kvs (KStr ''seg'') = Some (PList segs)"
    and "norm_index (length segs) i = Some j"
  shows "start_get (SegmentItem segment_interface i) w = subscript (segs ! j) (KStr ''start'')
       \<and> start_set (SegmentItem segment_interface i) (PInt v) w
           = (if 1 \<le> v \<and> v \<le> 255
              then (Inr (), w\<lparr>state := PDict (dict_set (KStr ''seg'') (PList (segs[j := PInt v])) kvs)\<rparr>)
              else (Inl ValueError, w))"
  using seg_accessor [OF assms] seg_setter [OF assms]
  by (auto simp: start_get_def start_set_def this_item_def SegmentItem_def verify_int8bit_def)

theorem segment_start_get_set_witness:
  "start_get (SegmentItem segment_interface 1) dev2 = Inr (PInt 20)
   \<and> start_set (SegmentItem segment_interface 1) (PInt 7) dev2 = (Inr (), start_written)
   \<and> start_get (SegmentItem segment_interface 1) start_written = Inl TypeError
   \<and> start_set (SegmentItem segment_interface 1) (PInt 0) dev2 = (Inl ValueError, dev2)"
proof -
  have c: "norm_index (length segs2) 1 = Some 1" by (simp add: norm_index_def segs2_def)
  have a': "state start_written = PDict [(KStr ''on'', PBool True), (KStr ''bri'', PInt 128),
      (KStr ''nl'', PDict nl2),
      (KStr ''seg'', PList [PDict [(KStr ''start'', PInt 0), (KStr ''stop'', PInt 20)], PInt 7])]"
    by (simp add: start_written_def)
  have b': "map_of [(KStr ''on'', PBool True), (KStr ''bri'', PInt 128), (KStr ''nl'', PDict nl2),
      (KStr ''seg'', PList [PDict [(KStr ''start'', PInt 0), (KStr ''stop'', PInt 20)], PInt 7])]
      (KStr ''seg'') = Some (PList [PDict [(KStr ''start'', PInt 0), (KStr ''stop'', PInt 20)], PInt 7])"
    by simp
  have c': "norm_index (length [PDict [(KStr ''start'', PInt 0), (KStr ''stop'', PInt 20)], PInt 7]) 1
      = Some 1"
    by (simp add: norm_index_def)
  show ?thesis
    using segment_start_get_set [OF dev2_state st2_seg c, of 7]
      segment_start_get_set [OF dev2_state st2_seg c, of 0]
      segment_start_get_set [OF a' b' c', of 7]
    by (simp add: segs2_def start_written_def st2_def)
qed

end
